theory Spec2Isabelle
  imports Main "HOL-Library.Word" "HOL-Library.AList"
begin

section \<open>Errors\<close>

text \<open>
  The exceptions the modelled code can raise: the two JavaScript built-in errors the
  buffer and JSON primitives throw, and the \<open>errorCode\<close> keys used by \<open>ipc.js\<close> and
  \<open>client.js\<close> (\<open>RpcError\<close> and \<open>RpcTimeout\<close> carry one of these codes; the message of
  a \<open>ConnectionError\<close> is the text built from the close event).
\<close>

datatype error =
    RangeError
  | TypeError
  | RpcTimeout
  | ConnectionError string
  | ConnectionFailed
  | MessageError

section \<open>Frame codec: \<open>options/transports/ipc.js\<close>\<close>

subsection \<open>Buffers and the built-ins the codec calls\<close>

type_synonym byte = "8 word"
type_synonym buffer = "byte list"

text \<open>
  \<open>JSON.stringify\<close>, \<open>JSON.parse\<close> and the UTF-8 conversions of \<open>Buffer\<close> are built-ins
  of the platform, not code of the repository: the codec takes them as an environment.
  \<open>JSON_stringify\<close> is \<open>None\<close> where the built-in throws or returns \<open>undefined\<close>;
  \<open>JSON_parse\<close> is \<open>None\<close> where it throws. \<open>utf8_bytes\<close> gives the bytes that
  \<open>Buffer.byteLength\<close> counts and \<open>Buffer.write\<close> stores; \<open>utf8_toString\<close> is
  \<open>Buffer.toString()\<close>.
\<close>

record 'v js_env =
  JSON_stringify :: "'v \<Rightarrow> string option"
  JSON_parse :: "string \<Rightarrow> 'v option"
  utf8_bytes :: "string \<Rightarrow> buffer"
  utf8_toString :: "buffer \<Rightarrow> string"

text \<open>\<open>buf.writeInt32LE(value, offset)\<close>: the four bytes written, least significant first;
  a value outside the signed 32-bit range throws \<open>RangeError\<close>.\<close>

definition writeInt32LE :: "int \<Rightarrow> error + buffer" where
  "writeInt32LE v =
     (if v < - (2 ^ 31) \<or> 2 ^ 31 \<le> v then Inl RangeError
      else Inr (map (\<lambda>i. ucast (drop_bit (8 * i) (word_of_int v :: 32 word))) [0..<4]))"

text \<open>\<open>buf.readInt32LE(offset)\<close>: throws \<open>RangeError\<close> unless four bytes are there.\<close>

definition readInt32LE :: "buffer \<Rightarrow> nat \<Rightarrow> error + int" where
  "readInt32LE b off =
     (if length b < off + 4 then Inl RangeError
      else Inr (sint (horner_sum ucast 256 (take 4 (drop off b)) :: 32 word)))"

text \<open>\<open>buf.slice(start, end)\<close>: a negative index counts from the end, every index is
  clamped to the buffer, and an end at or before the start gives the empty buffer.\<close>

definition adjustOffset :: "int \<Rightarrow> nat \<Rightarrow> nat" where
  "adjustOffset offset len =
     (if offset < 0 then (if 0 < offset + int len then nat (offset + int len) else 0)
      else if offset < int len then nat offset
      else len)"

definition buffer_slice :: "buffer \<Rightarrow> int \<Rightarrow> int \<Rightarrow> buffer" where
  "buffer_slice b start end =
     (let s = adjustOffset start (length b); e = adjustOffset end (length b)
      in if s < e then take (e - s) (drop s b) else [])"

subsection \<open>\<open>encode\<close>\<close>

definition encode :: "'v js_env \<Rightarrow> int \<Rightarrow> 'v \<Rightarrow> error + buffer" where
  "encode env opc data =
     (case JSON_stringify env data of
        None \<Rightarrow> Inl TypeError
      | Some text \<Rightarrow>
          (let payload = utf8_bytes env text; len = int (length payload)
           in case writeInt32LE opc of
                Inl e \<Rightarrow> Inl e
              | Inr b0 \<Rightarrow>
                  (case writeInt32LE len of
                     Inl e \<Rightarrow> Inl e
                   | Inr b1 \<Rightarrow> Inr (b0 @ b1 @ payload))))"

subsection \<open>\<open>decode\<close>\<close>

text \<open>The entry of \<open>socketState\<close> for one socket.\<close>

record decode_state =
  full :: string
  op :: "int option"

text \<open>
  \<open>socket.read()\<close> without a size, on the paused socket: everything the stream has
  buffered, as one packet, or \<open>null\<close> when nothing is buffered. The second component is
  what stays buffered.
\<close>

definition socket_read :: "buffer \<Rightarrow> buffer option \<times> buffer" where
  "socket_read sock = (if sock = [] then (None, []) else (Some sock, []))"

text \<open>
  The body of \<open>decode\<close> for one packet (lines 97 to 115): the header is read only when no
  text is pending, the packet is otherwise taken whole as a continuation, and the frame
  is complete when the accumulated text parses. The callback's invocations are returned
  in order; an exception of \<open>readInt32LE\<close> leaves the function.

  The callback is called inside the \<open>try\<close> block, before the state is reset, so an
  exception of the callback is caught by the same \<open>catch\<close> as one of \<open>JSON.parse\<close>: the
  text is then appended to \<open>state.full\<close> and \<open>state.op\<close> stays set. The callback is
  given by \<open>throws\<close>, which holds of the messages on which it throws.
\<close>

definition decode_packet ::
  "'v js_env \<Rightarrow> (int option \<times> 'v \<Rightarrow> bool) \<Rightarrow> buffer \<Rightarrow> decode_state
     \<Rightarrow> error + (decode_state \<times> (int option \<times> 'v) list)" where
  "decode_packet env throws packet state =
     (case (if full state = []
            then (case readInt32LE packet 0 of
                    Inl e \<Rightarrow> Inl e
                  | Inr opc \<Rightarrow>
                      (case readInt32LE packet 4 of
                         Inl e \<Rightarrow> Inl e
                       | Inr len \<Rightarrow>
                           Inr (Some opc, state\<lparr>op := Some opc\<rparr>,
                                utf8_toString env (buffer_slice packet 8 (len + 8)))))
            else Inr (op state, state, utf8_toString env packet)) of
        Inl e \<Rightarrow> Inl e
      | Inr (opc, state', raw) \<Rightarrow>
          (case JSON_parse env (full state' @ raw) of
             Some data \<Rightarrow>
               if throws (opc, data)
               then Inr (state'\<lparr>full := full state' @ raw\<rparr>, [(opc, data)])
               else Inr (state'\<lparr>full := [], op := None\<rparr>, [(opc, data)])
           | None \<Rightarrow> Inr (state'\<lparr>full := full state' @ raw\<rparr>, [])))"

text \<open>
  \<open>decode(socket, callback)\<close>: reads a packet, returns when there is none, creates the
  socket's state on first use, handles the packet and calls itself again.
\<close>

function decode ::
  "'v js_env \<Rightarrow> (int option \<times> 'v \<Rightarrow> bool) \<Rightarrow> buffer \<Rightarrow> decode_state option
     \<Rightarrow> error + (decode_state option \<times> (int option \<times> 'v) list)" where
  "decode env throws sock entry =
     (case socket_read sock of
        (None, _) \<Rightarrow> Inr (entry, [])
      | (Some packet, sock') \<Rightarrow>
          (let state = (case entry of None \<Rightarrow> \<lparr>full = [], op = None\<rparr> | Some s \<Rightarrow> s)
           in case decode_packet env throws packet state of
                Inl e \<Rightarrow> Inl e
              | Inr (state', evs) \<Rightarrow>
                  (case decode env throws sock' (Some state') of
                     Inl e \<Rightarrow> Inl e
                   | Inr (entry', evs') \<Rightarrow> Inr (entry', evs @ evs'))))"
  by pat_completeness auto
termination
  by (relation "measure (\<lambda>(env, throws, sock, entry). length sock)")
     (auto simp: socket_read_def split: if_splits)

declare decode.simps [simp del]

text \<open>
  The socket's \<open>readable\<close> listener runs \<open>decode\<close> once for every chunk the stream
  delivers; an exception thrown in the listener is not caught and ends the run.
\<close>

fun readable_events ::
  "'v js_env \<Rightarrow> (int option \<times> 'v \<Rightarrow> bool) \<Rightarrow> buffer list \<Rightarrow> decode_state option
     \<Rightarrow> error + (decode_state option \<times> (int option \<times> 'v) list)" where
  "readable_events env throws [] entry = Inr (entry, [])"
| "readable_events env throws (chunk # chunks) entry =
     (case decode env throws chunk entry of
        Inl e \<Rightarrow> Inl e
      | Inr (entry', evs) \<Rightarrow>
          (case readable_events env throws chunks entry' of
             Inl e \<Rightarrow> Inl e
           | Inr (entry'', evs') \<Rightarrow> Inr (entry'', evs @ evs')))"

subsection \<open>A concrete environment for the examples\<close>

text \<open>
  A fragment of the values of JavaScript, enough to run the codec and the client on
  concrete inputs: \<open>null\<close>, \<open>true\<close>, \<open>false\<close>, the natural numbers, a \<open>BigInt\<close>, and the
  object \<open>{ cmd, args, evt, nonce }\<close> that \<open>request\<close> sends (\<open>evt\<close> may be \<open>undefined\<close>).
  \<open>JSON.stringify\<close> throws \<open>TypeError\<close> on a \<open>BigInt\<close>, also inside an object; it writes
  the keys of an object in the order of the literal and leaves out a key whose value is
  \<open>undefined\<close>. The strings are taken to hold no character that needs an escape. The
  parser reads the literals and the numbers in decimal; on the texts used below it
  answers as \<open>JSON.parse\<close> does. The texts are ASCII, one byte per character.
\<close>

datatype json =
    JNull
  | JBool bool
  | JNum nat
  | JBigInt nat
  | JRequest string json "string option" string

fun show_nat :: "nat \<Rightarrow> string" where
  "show_nat n =
     (if n < 10 then [char_of (48 + n)]
      else show_nat (n div 10) @ [char_of (48 + n mod 10)])"

declare show_nat.simps [simp del]

definition quoted :: "string \<Rightarrow> string" where
  "quoted s = CHR 0x22 # s @ [CHR 0x22]"

fun stringify_json :: "json \<Rightarrow> string option" where
  "stringify_json JNull = Some ''null''"
| "stringify_json (JBool b) = Some (if b then ''true'' else ''false'')"
| "stringify_json (JNum n) = Some (show_nat n)"
| "stringify_json (JBigInt n) = None"
| "stringify_json (JRequest command args event nonce) =
     (case stringify_json args of
        None \<Rightarrow> None
      | Some a \<Rightarrow>
          Some (''{'' @ quoted ''cmd'' @ '':'' @ quoted command
                @ '','' @ quoted ''args'' @ '':'' @ a
                @ (case event of None \<Rightarrow> [] | Some e \<Rightarrow> '','' @ quoted ''evt'' @ '':'' @ quoted e)
                @ '','' @ quoted ''nonce'' @ '':'' @ quoted nonce @ ''}''))"

definition is_digit :: "char \<Rightarrow> bool" where
  "is_digit c = (48 \<le> (of_char c :: nat) \<and> (of_char c :: nat) \<le> 57)"

definition parse_json :: "string \<Rightarrow> json option" where
  "parse_json s =
     (if s = ''null'' then Some JNull
      else if s = ''true'' then Some (JBool True)
      else if s = ''false'' then Some (JBool False)
      else if s \<noteq> [] \<and> list_all is_digit s \<and> (length s = 1 \<or> hd s \<noteq> CHR ''0'')
      then Some (JNum (foldl (\<lambda>a c. 10 * a + (of_char c - 48)) 0 s))
      else None)"

definition ascii_env :: "json js_env" where
  "ascii_env =
     \<lparr>JSON_stringify = stringify_json,
      JSON_parse = parse_json,
      utf8_bytes = map of_char,
      utf8_toString = map (\<lambda>b. char_of (unat b))\<rparr>"


section \<open>Endpoint resolver and transport connection: \<open>options/transports/ipc.js\<close>\<close>

text \<open>
  \<open>getIPC(id)\<close> opens a connection to the address of instance \<open>id\<close>; on an error it
  goes on with \<open>id + 1\<close> while \<open>id < 10\<close>, and rejects with \<open>ConnectionFailed\<close>
  otherwise. Which instances accept a connection is the parameter \<open>listening\<close>. The
  result is the list of the instances attempted, in order, and the instance whose socket
  the promise resolves to, or the error it rejects with.
\<close>

function getIPC :: "(nat \<Rightarrow> bool) \<Rightarrow> nat \<Rightarrow> nat list \<times> (error + nat)" where
  "getIPC listening n =
     (if listening n then ([n], Inr n)
      else if n < 10 then (case getIPC listening (n + 1) of (tried, r) \<Rightarrow> (n # tried, r))
      else ([n], Inl ConnectionFailed))"
  by pat_completeness auto
termination
  by (relation "measure (\<lambda>(listening, n). 11 - n)") auto

declare getIPC.simps [simp del]

definition OPCodes_HANDSHAKE :: int where "OPCodes_HANDSHAKE = 0"
definition OPCodes_FRAME :: int where "OPCodes_FRAME = 1"
definition OPCodes_CLOSE :: int where "OPCodes_CLOSE = 2"
definition OPCodes_PING :: int where "OPCodes_PING = 3"
definition OPCodes_PONG :: int where "OPCodes_PONG = 4"

text \<open>
  \<open>IPCTransport.connect\<close> up to the first write: the socket of \<open>getIPC()\<close>, started at
  instance 0, and the handshake frame written to it. \<open>handshake\<close> is the object
  \<open>{v: 1, client_id}\<close>.
\<close>

definition IPCTransport_connect ::
  "'v js_env \<Rightarrow> (nat \<Rightarrow> bool) \<Rightarrow> 'v \<Rightarrow> nat list \<times> (error + nat \<times> buffer)" where
  "IPCTransport_connect env listening handshake =
     (case getIPC listening 0 of
        (tried, Inl e) \<Rightarrow> (tried, Inl e)
      | (tried, Inr sock) \<Rightarrow>
          (case encode env OPCodes_HANDSHAKE handshake of
             Inl e \<Rightarrow> (tried, Inl e)
           | Inr frame \<Rightarrow> (tried, Inr (sock, frame))))"

section \<open>Concurrency controls: \<open>client.js\<close>\<close>

subsection \<open>\<open>ResponseCache\<close>\<close>

text \<open>Times are the milliseconds of \<open>Date.now()\<close>.\<close>

record 'v cache_item =
  item_value :: 'v
  expires :: int

record ('k, 'v) ResponseCache =
  cache :: "'k \<rightharpoonup> 'v cache_item"
  ttl :: int

definition cache_set :: "('k, 'v) ResponseCache \<Rightarrow> 'k \<Rightarrow> 'v \<Rightarrow> int \<Rightarrow> ('k, 'v) ResponseCache" where
  "cache_set c key v now =
     c\<lparr>cache := (cache c)(key \<mapsto> \<lparr>item_value = v, expires = now + ttl c\<rparr>)\<rparr>"

text \<open>\<open>get\<close> returns \<open>null\<close> (here \<open>None\<close>) on a miss, and deletes an entry it finds
  expired.\<close>

definition cache_get :: "('k, 'v) ResponseCache \<Rightarrow> 'k \<Rightarrow> int \<Rightarrow> 'v option \<times> ('k, 'v) ResponseCache" where
  "cache_get c key now =
     (case cache c key of
        None \<Rightarrow> (None, c)
      | Some item \<Rightarrow>
          if now > expires item then (None, c\<lparr>cache := (cache c)(key := None)\<rparr>)
          else (Some (item_value item), c))"

definition cache_clear :: "('k, 'v) ResponseCache \<Rightarrow> ('k, 'v) ResponseCache" where
  "cache_clear c = c\<lparr>cache := Map.empty\<rparr>"

subsection \<open>\<open>RequestQueue\<close>\<close>

text \<open>
  The calls of \<open>add\<close> are numbered. \<open>queue\<close> holds the \<open>resolve\<close> callbacks of the
  calls that wait, each named by its call.
\<close>

record RequestQueue =
  queue :: "nat list"
  running :: int
  maxConcurrent :: int

text \<open>
  \<open>add\<close> is an async function: it runs in pieces, split at its two \<open>await\<close>s, and other
  jobs of the event loop run between the pieces. Beside the queue object itself the
  state records the calls whose \<open>resolve\<close> callback has been called and whose
  continuation has not run yet (\<open>resumable\<close>, in the order of the microtask queue), and
  the calls whose \<open>fn()\<close> has been called and has not settled (\<open>in_flight\<close>).
\<close>

record rq_system =
  rq :: RequestQueue
  resumable :: "nat list"
  in_flight :: "nat list"

definition rq_init :: "int \<Rightarrow> rq_system" where
  "rq_init k = \<lparr>rq = \<lparr>queue = [], running = 0, maxConcurrent = k\<rparr>, resumable = [], in_flight = []\<rparr>"

text \<open>\<open>this.running++\<close> and the call of \<open>fn()\<close>, up to \<open>await fn()\<close>.\<close>

definition admit :: "rq_system \<Rightarrow> nat \<Rightarrow> rq_system" where
  "admit s i = s\<lparr>rq := (rq s)\<lparr>running := running (rq s) + 1\<rparr>, in_flight := in_flight s @ [i]\<rparr>"

text \<open>The call of \<open>add\<close>: it either parks its \<open>resolve\<close> in the queue and waits, or goes
  straight on.\<close>

definition add_call :: "rq_system \<Rightarrow> nat \<Rightarrow> rq_system" where
  "add_call s i =
     (if running (rq s) \<ge> maxConcurrent (rq s)
      then s\<lparr>rq := (rq s)\<lparr>queue := queue (rq s) @ [i]\<rparr>\<rparr>
      else admit s i)"

text \<open>The continuation of a call that waited, once its promise is resolved.\<close>

definition add_resume :: "rq_system \<Rightarrow> nat \<Rightarrow> rq_system" where
  "add_resume s i = admit (s\<lparr>resumable := remove1 i (resumable s)\<rparr>) i"

text \<open>The \<open>finally\<close> block, run when \<open>fn()\<close> has settled, fulfilled or rejected alike:
  \<open>this.running--\<close>, \<open>queue.shift()\<close> and the call of the callback taken, if any.\<close>

definition add_finally :: "rq_system \<Rightarrow> nat \<Rightarrow> rq_system" where
  "add_finally s i =
     (let q = rq s;
          s' = s\<lparr>in_flight := remove1 i (in_flight s),
                 rq := q\<lparr>running := running q - 1, queue := tl (queue q)\<rparr>\<rparr>
      in case queue q of
           [] \<Rightarrow> s'
         | next # _ \<Rightarrow> s'\<lparr>resumable := resumable s' @ [next]\<rparr>)"

text \<open>
  The jobs of the event loop that touch the queue: a new call of \<open>add\<close>, the continuation
  of the longest-resolved waiter, and the settling of the \<open>fn()\<close> of a call in flight
  (\<open>True\<close> for fulfilled, \<open>False\<close> for rejected). A job that cannot happen in the state
  gives \<open>None\<close>.
\<close>

datatype rq_event = Add nat | Resume nat | Settle nat bool

definition rq_known :: "rq_system \<Rightarrow> nat \<Rightarrow> bool" where
  "rq_known s i = (i \<in> set (queue (rq s)) \<or> i \<in> set (resumable s) \<or> i \<in> set (in_flight s))"

fun rq_step :: "rq_system \<Rightarrow> rq_event \<Rightarrow> rq_system option" where
  "rq_step s (Add i) = (if rq_known s i then None else Some (add_call s i))"
| "rq_step s (Resume i) =
     (case resumable s of [] \<Rightarrow> None | j # _ \<Rightarrow> if i = j then Some (add_resume s i) else None)"
| "rq_step s (Settle i ok) = (if i \<in> set (in_flight s) then Some (add_finally s i) else None)"

fun rq_run :: "rq_system \<Rightarrow> rq_event list \<Rightarrow> rq_system option" where
  "rq_run s [] = Some s"
| "rq_run s (e # es) = (case rq_step s e of None \<Rightarrow> None | Some s' \<Rightarrow> rq_run s' es)"

section \<open>The client: \<open>client.js\<close>\<close>

subsection \<open>State\<close>

text \<open>
  A promise is pending or settled, and settles once. The promise of \<open>connect\<close> is
  resolved with the client itself, the promise of a request with the data of its
  response.
\<close>

datatype 'v promise = Pending | Resolved 'v | ResolvedClient | Rejected error

text \<open>An armed \<open>setTimeout\<close> of the client: the one of a request, which knows the nonce
  it has to delete, or the one of \<open>connect\<close>; both with the time at which they are due.\<close>

datatype timer = RequestTimeout string int | ConnectTimeout int

text \<open>A message as \<open>_onRpcMessage\<close> reads it: \<open>cmd\<close>, \<open>evt\<close>, \<open>nonce\<close>, \<open>data\<close> and
  \<open>data.user\<close>.\<close>

record 'v message =
  msg_cmd :: string
  msg_evt :: "string option"
  msg_nonce :: "string option"
  msg_data :: 'v
  msg_data_user :: "'v option"

text \<open>What the client does to the outside, in order: the events it emits, the timed wait
  of the reconnection, the calls of the transport, and the settling of its promises.\<close>

datatype 'v effect =
    Emit string
  | EmitEvent "string option" 'v
  | EmitError error
  | EmitReconnecting nat
  | Sleep nat
  | TransportConnect
  | TransportSend string 'v "string option" string
  | Settled nat "'v promise"

text \<open>
  The fields of \<open>RpcClient\<close> and the options read by the functions below. Promises are
  named by their index in \<open>promises\<close>. \<open>expecting\<close> is the \<open>Map\<close> \<open>_expecting\<close> in
  insertion order; an entry holds the \<open>resolve\<close> and \<open>reject\<close> closures of one request,
  that is, the promise and the timer of that request. \<open>timers\<close> are the armed timeouts,
  each under the promise it rejects. \<open>connected_once\<close> and \<open>close_once\<close> are the
  listeners that \<open>connect\<close> registers with \<open>this.once('connected')\<close> and
  \<open>this.transport.once('close')\<close>, each with the variables its closure captured.
  \<open>transport_socket\<close> says whether \<open>transport.socket\<close> has been assigned.
\<close>

record 'v client =
  clientId :: "string option"
  user :: "'v option"
  requestTimeout :: int
  autoReconnect :: bool
  maxReconnectAttempts :: int
  reconnectAttempts :: nat
  isReconnecting :: bool
  expecting :: "(string \<times> nat) list"
  connectPromise :: "nat option"
  promises :: "'v promise list"
  timers :: "(nat \<times> timer) list"
  connected_once :: "nat list"
  close_once :: "(string \<times> nat) list"
  transport_socket :: bool
  trace :: "'v effect list"

text \<open>The client as its constructor leaves it, for given options.\<close>

definition new_client :: "int \<Rightarrow> bool \<Rightarrow> int \<Rightarrow> 'v client" where
  "new_client timeout reconnect attempts =
     \<lparr>clientId = None, user = None, requestTimeout = timeout, autoReconnect = reconnect,
      maxReconnectAttempts = attempts, reconnectAttempts = 0, isReconnecting = False,
      expecting = [], connectPromise = None, promises = [], timers = [],
      connected_once = [], close_once = [], transport_socket = False, trace = []\<rparr>"

text \<open>
  Modelled from the spec: \<open>constants.js\<close>, which defines \<open>RPCCommands\<close> and
  \<open>RPCEvents\<close>, is not among the sources. The two names \<open>_onRpcMessage\<close> compares with
  are the ``ready'' dispatch signature of the spec.
\<close>

definition RPCCommands_DISPATCH :: string where "RPCCommands_DISPATCH = ''DISPATCH''"
definition RPCEvents_READY :: string where "RPCEvents_READY = ''READY''"

subsection \<open>Promises and timers\<close>

definition new_promise :: "'v client \<Rightarrow> nat \<times> 'v client" where
  "new_promise c = (length (promises c), c\<lparr>promises := promises c @ [Pending]\<rparr>)"

text \<open>Calling \<open>resolve\<close> or \<open>reject\<close> of a promise: it changes a pending promise only.\<close>

definition settle :: "'v client \<Rightarrow> nat \<Rightarrow> 'v promise \<Rightarrow> 'v client" where
  "settle c p outcome =
     (if p < length (promises c) \<and> promises c ! p = Pending
      then c\<lparr>promises := (promises c)[p := outcome], trace := trace c @ [Settled p outcome]\<rparr>
      else c)"

definition clearTimeout :: "'v client \<Rightarrow> nat \<Rightarrow> 'v client" where
  "clearTimeout c p = c\<lparr>timers := AList.delete p (timers c)\<rparr>"

text \<open>The \<open>resolve\<close> and \<open>reject\<close> stored in an entry of \<open>_expecting\<close>.\<close>

definition entry_resolve :: "'v client \<Rightarrow> nat \<Rightarrow> 'v \<Rightarrow> 'v client" where
  "entry_resolve c p v = settle (clearTimeout c p) p (Resolved v)"

definition entry_reject :: "'v client \<Rightarrow> nat \<Rightarrow> error \<Rightarrow> 'v client" where
  "entry_reject c p e = settle (clearTimeout c p) p (Rejected e)"

subsection \<open>\<open>connect\<close> and its listeners\<close>

text \<open>
  \<open>connect(clientId)\<close> at time \<open>now\<close>: the memoized promise if there is one; otherwise a
  new promise whose executor stores the client id, arms the timeout, registers the two
  listeners and calls \<open>transport.connect()\<close>.
\<close>

definition connect :: "'v client \<Rightarrow> string \<Rightarrow> int \<Rightarrow> nat \<times> 'v client" where
  "connect c cid now =
     (case connectPromise c of
        Some p \<Rightarrow> (p, c)
      | None \<Rightarrow>
          (let p = fst (new_promise c); c1 = snd (new_promise c);
               c2 = c1\<lparr>clientId := Some cid,
                       timers := AList.update p (ConnectTimeout (now + requestTimeout c1)) (timers c1),
                       connected_once := connected_once c1 @ [p],
                       close_once := close_once c1 @ [(cid, p)],
                       trace := trace c1 @ [TransportConnect]\<rparr>
           in (p, c2\<lparr>connectPromise := Some p\<rparr>)))"

text \<open>The two ways \<open>transport.connect()\<close> ends: its rejection reaches the promise of
  \<open>connect\<close> through \<open>.catch(reject)\<close>; on success the transport has its socket.\<close>

definition transport_connect_failed :: "'v client \<Rightarrow> nat \<Rightarrow> error \<Rightarrow> 'v client" where
  "transport_connect_failed c p e = settle c p (Rejected e)"

definition transport_open :: "'v client \<Rightarrow> 'v client" where
  "transport_open c = c\<lparr>transport_socket := True\<rparr>"

text \<open>The listeners of \<open>'connected'\<close>, in the order they were registered; being \<open>once\<close>
  listeners they are removed when the event is emitted.\<close>

fun run_connected :: "'v client \<Rightarrow> nat list \<Rightarrow> 'v client" where
  "run_connected c [] = c"
| "run_connected c (p # ps) =
     run_connected (settle ((clearTimeout c p)\<lparr>reconnectAttempts := 0\<rparr>) p ResolvedClient) ps"

definition emit_connected :: "'v client \<Rightarrow> 'v client" where
  "emit_connected c =
     run_connected (c\<lparr>connected_once := [], trace := trace c @ [Emit ''connected'']\<rparr>)
       (connected_once c)"

text \<open>\<open>this.emit(name, data)\<close> with a name taken from a message: the listeners of the
  client's own code run when the name is \<open>connected\<close>; what the listeners of the
  application do is outside the model.\<close>

definition client_emit :: "'v client \<Rightarrow> string option \<Rightarrow> 'v \<Rightarrow> 'v client" where
  "client_emit c name v =
     (if name = Some ''connected'' then emit_connected c
      else c\<lparr>trace := trace c @ [EmitEvent name v]\<rparr>)"

subsection \<open>\<open>request\<close>, its timeout, and \<open>_onRpcMessage\<close>\<close>

text \<open>
  The function that \<open>request\<close> hands to the queue, run when the queue admits it, at time
  \<open>now\<close> and with the nonce \<open>uuid()\<close> returned. Its last statement is
  \<open>this.transport.send({ cmd, args, evt, nonce })\<close>, that is
  \<open>this.socket.write(encode(OPCodes.FRAME, data))\<close>. The callee \<open>this.socket.write\<close> is
  evaluated first and throws \<open>TypeError\<close> when there is no socket yet; then the argument
  is evaluated, and \<open>encode\<close> throws when \<open>JSON.stringify\<close> refuses the object (a cycle,
  a \<open>BigInt\<close>). Either exception is thrown inside the executor of the promise and rejects
  it at once, with nothing written to the socket; the timer and the entry of
  \<open>_expecting\<close> have been set up by then and stay.

  \<open>enc command args event nonce\<close> is the value of \<open>encode(OPCodes.FRAME, data)\<close> for the
  object \<open>data\<close> built from the four fields: \<open>frame_encoder\<close> below, for a function \<open>obj\<close>
  that builds the object.
\<close>

definition frame_encoder ::
  "'v js_env \<Rightarrow> (string \<Rightarrow> 'v \<Rightarrow> string option \<Rightarrow> string \<Rightarrow> 'v)
     \<Rightarrow> string \<Rightarrow> 'v \<Rightarrow> string option \<Rightarrow> string \<Rightarrow> error + buffer" where
  "frame_encoder env obj command args event nonce =
     encode env OPCodes_FRAME (obj command args event nonce)"

definition request_admitted ::
  "(string \<Rightarrow> 'v \<Rightarrow> string option \<Rightarrow> string \<Rightarrow> error + buffer)
     \<Rightarrow> 'v client \<Rightarrow> string \<Rightarrow> 'v \<Rightarrow> string option \<Rightarrow> string \<Rightarrow> int \<Rightarrow> nat \<times> 'v client" where
  "request_admitted enc c command args event nonce now =
     (let p = fst (new_promise c); c1 = snd (new_promise c);
          c2 = c1\<lparr>timers := AList.update p (RequestTimeout nonce (now + requestTimeout c1)) (timers c1)\<rparr>;
          c3 = c2\<lparr>expecting := AList.update nonce p (expecting c2)\<rparr>
      in if \<not> transport_socket c3 then (p, settle c3 p (Rejected TypeError))
         else (case enc command args event nonce of
                 Inl e \<Rightarrow> (p, settle c3 p (Rejected e))
               | Inr frame \<Rightarrow> (p, c3\<lparr>trace := trace c3 @ [TransportSend command args event nonce]\<rparr>)))"

text \<open>A timer comes due. A timer that was cleared, or has fired, does nothing.\<close>

definition timer_fire :: "'v client \<Rightarrow> nat \<Rightarrow> 'v client" where
  "timer_fire c p =
     (case map_of (timers c) p of
        None \<Rightarrow> c
      | Some (RequestTimeout nonce due) \<Rightarrow>
          settle (c\<lparr>timers := AList.delete p (timers c),
                    expecting := AList.delete nonce (expecting c)\<rparr>) p (Rejected RpcTimeout)
      | Some (ConnectTimeout due) \<Rightarrow>
          settle (c\<lparr>timers := AList.delete p (timers c)\<rparr>) p (Rejected RpcTimeout))"

definition onRpcMessage :: "'v client \<Rightarrow> 'v message \<Rightarrow> 'v client" where
  "onRpcMessage c m =
     (if msg_cmd m = RPCCommands_DISPATCH \<and> msg_evt m = Some RPCEvents_READY
      then emit_connected (case msg_data_user m of None \<Rightarrow> c | Some u \<Rightarrow> c\<lparr>user := Some u\<rparr>)
      else (case msg_nonce m of
              None \<Rightarrow> client_emit c (msg_evt m) (msg_data m)
            | Some n \<Rightarrow>
                (case map_of (expecting c) n of
                   None \<Rightarrow> client_emit c (msg_evt m) (msg_data m)
                 | Some p \<Rightarrow>
                     (let c1 = (if msg_evt m = Some ''RpcError''
                                then entry_reject c p MessageError
                                else entry_resolve c p (msg_data m))
                      in c1\<lparr>expecting := AList.delete n (expecting c1)\<rparr>))))"

subsection \<open>Reconnection and the close of the transport\<close>

text \<open>
  \<open>_tryReconnect\<close> is an async function, here in its pieces. The first runs up to the
  timed wait: it gives up with an \<open>error\<close> event when the attempts are used up, and
  otherwise counts the attempt, emits \<open>reconnecting\<close> and waits.
\<close>

definition tryReconnect_begin :: "'v client \<Rightarrow> string \<Rightarrow> 'v client" where
  "tryReconnect_begin c cid =
     (if int (reconnectAttempts c) \<ge> maxReconnectAttempts c
      then c\<lparr>trace := trace c @ [EmitError ConnectionFailed]\<rparr>
      else (let n = reconnectAttempts c + 1
            in c\<lparr>isReconnecting := True, reconnectAttempts := n,
                 trace := trace c @ [EmitReconnecting n, Sleep (min (1000 * 2 ^ n) 30000)]\<rparr>))"

text \<open>After the wait: the memoized promise is dropped and \<open>connect\<close> is called.\<close>

definition tryReconnect_connect :: "'v client \<Rightarrow> string \<Rightarrow> int \<Rightarrow> nat \<times> 'v client" where
  "tryReconnect_connect c cid now = connect (c\<lparr>connectPromise := None\<rparr>) cid now"

text \<open>After \<open>await this.connect(clientId)\<close>: when the promise was fulfilled. When it was
  rejected, the \<open>catch\<close> block calls \<open>_tryReconnect\<close> again.\<close>

definition tryReconnect_connected :: "'v client \<Rightarrow> 'v client" where
  "tryReconnect_connected c = c\<lparr>isReconnecting := False, trace := trace c @ [Emit ''reconnected'']\<rparr>"

text \<open>The listener of the transport's \<open>close\<close> event that \<open>connect\<close> registers, with the
  \<open>clientId\<close> and the promise of that call of \<open>connect\<close>, and the text made of the
  event's code and reason.\<close>

fun reject_all :: "'v client \<Rightarrow> (string \<times> nat) list \<Rightarrow> error \<Rightarrow> 'v client" where
  "reject_all c [] e = c"
| "reject_all c ((n, p) # entries) e = reject_all (entry_reject c p e) entries e"

definition close_listener :: "'v client \<Rightarrow> string \<Rightarrow> nat \<Rightarrow> string \<Rightarrow> 'v client" where
  "close_listener c cid p reason =
     (let c1 = reject_all c (expecting c) (ConnectionError reason);
          c2 = c1\<lparr>trace := trace c1 @ [Emit ''disconnected'']\<rparr>;
          c3 = (if autoReconnect c2 \<and> \<not> isReconnecting c2 then tryReconnect_begin c2 cid else c2)
      in settle c3 p (Rejected (ConnectionError reason)))"

fun run_close :: "'v client \<Rightarrow> (string \<times> nat) list \<Rightarrow> string \<Rightarrow> 'v client" where
  "run_close c [] reason = c"
| "run_close c ((cid, p) # ls) reason = run_close (close_listener c cid p reason) ls reason"

definition transport_close :: "'v client \<Rightarrow> string \<Rightarrow> 'v client" where
  "transport_close c reason = run_close (c\<lparr>close_once := []\<rparr>) (close_once c) reason"

text \<open>
  \<open>destroy\<close>: the listeners on the client are removed and \<open>_expecting\<close> is cleared; the
  next statement reads \<open>this._subscriptions\<close>, a field that nothing assigns, and throws.
\<close>

definition destroy :: "'v client \<Rightarrow> error \<times> 'v client" where
  "destroy c = (TypeError, c\<lparr>connected_once := [], expecting := []\<rparr>)"

text \<open>
  A reconnection from the first \<open>_tryReconnect\<close> to its end. \<open>succeeds n\<close> says whether
  the \<open>connect\<close> of attempt \<open>n\<close> is fulfilled (the transport opens and the ready dispatch
  arrives) or rejected (\<open>transport.connect()\<close> fails); \<open>clock n\<close> is the time of that
  call.
\<close>

function reconnect_loop ::
  "(nat \<Rightarrow> bool) \<Rightarrow> (nat \<Rightarrow> int) \<Rightarrow> 'v client \<Rightarrow> string \<Rightarrow> 'v client" where
  "reconnect_loop succeeds clock c cid =
     (let c1 = tryReconnect_begin c cid
      in if int (reconnectAttempts c) \<ge> maxReconnectAttempts c then c1
         else (let n = reconnectAttempts c1;
                   r = tryReconnect_connect c1 cid (clock n)
               in if succeeds n
                  then tryReconnect_connected (emit_connected (transport_open (snd r)))
                  else reconnect_loop succeeds clock
                         (transport_connect_failed (snd r) (fst r) ConnectionFailed) cid))"
  by pat_completeness auto
termination
proof (relation "measure (\<lambda>(succeeds, clock, c, cid).
                   nat (maxReconnectAttempts c - int (reconnectAttempts c)))")
  show "wf (measure (\<lambda>(succeeds, clock, c, cid).
              nat (maxReconnectAttempts c - int (reconnectAttempts c))))"
    by simp
next
  fix succeeds :: "nat \<Rightarrow> bool" and clock :: "nat \<Rightarrow> int" and c :: "'v client" and cid c1 n r
  assume c1: "c1 = tryReconnect_begin c cid"
    and lt: "\<not> maxReconnectAttempts c \<le> int (reconnectAttempts c)"
    and r: "r = tryReconnect_connect c1 cid (clock n)"
  have a1: "reconnectAttempts c1 = reconnectAttempts c + 1" "maxReconnectAttempts c1 = maxReconnectAttempts c"
    using lt by (simp_all add: c1 tryReconnect_begin_def Let_def)
  have a2: "reconnectAttempts (snd r) = reconnectAttempts c1" "maxReconnectAttempts (snd r) = maxReconnectAttempts c1"
    by (simp_all add: r tryReconnect_connect_def connect_def new_promise_def Let_def)
  have a3: "reconnectAttempts (transport_connect_failed (snd r) (fst r) ConnectionFailed) = reconnectAttempts (snd r)"
    "maxReconnectAttempts (transport_connect_failed (snd r) (fst r) ConnectionFailed) = maxReconnectAttempts (snd r)"
    by (simp_all add: transport_connect_failed_def settle_def)
  show "((succeeds, clock, transport_connect_failed (snd r) (fst r) ConnectionFailed, cid),
         (succeeds, clock, c, cid))
        \<in> measure (\<lambda>(succeeds, clock, c, cid).
              nat (maxReconnectAttempts c - int (reconnectAttempts c)))"
    using lt by (simp add: a1 a2 a3)
qed

declare reconnect_loop.simps [simp del]

subsection \<open>The jobs of the event loop that reach the client\<close>

text \<open>
  Every way in which the functions above are entered: the calls of the public methods,
  the timers, the events of the transport, and the later pieces of \<open>_tryReconnect\<close>.
\<close>

datatype 'v client_op =
    OpConnect string int
  | OpRequest string 'v "string option" string int
  | OpTimer nat
  | OpMessage "'v message"
  | OpTransportOpen
  | OpTransportConnectFailed nat error
  | OpTransportClose string
  | OpReconnectConnect string int
  | OpReconnectConnected
  | OpReconnectRetry string
  | OpDestroy

fun apply_op ::
  "(string \<Rightarrow> 'v \<Rightarrow> string option \<Rightarrow> string \<Rightarrow> error + buffer)
     \<Rightarrow> 'v client \<Rightarrow> 'v client_op \<Rightarrow> 'v client" where
  "apply_op enc c (OpConnect cid now) = snd (connect c cid now)"
| "apply_op enc c (OpRequest command args event nonce now) =
     snd (request_admitted enc c command args event nonce now)"
| "apply_op enc c (OpTimer p) = timer_fire c p"
| "apply_op enc c (OpMessage m) = onRpcMessage c m"
| "apply_op enc c OpTransportOpen = transport_open c"
| "apply_op enc c (OpTransportConnectFailed p e) = transport_connect_failed c p e"
| "apply_op enc c (OpTransportClose reason) = transport_close c reason"
| "apply_op enc c (OpReconnectConnect cid now) = snd (tryReconnect_connect c cid now)"
| "apply_op enc c OpReconnectConnected = tryReconnect_connected c"
| "apply_op enc c (OpReconnectRetry cid) = tryReconnect_begin c cid"
| "apply_op enc c OpDestroy = snd (destroy c)"

fun run_ops ::
  "(string \<Rightarrow> 'v \<Rightarrow> string option \<Rightarrow> string \<Rightarrow> error + buffer)
     \<Rightarrow> 'v client \<Rightarrow> 'v client_op list \<Rightarrow> 'v client" where
  "run_ops enc c [] = c"
| "run_ops enc c (x # xs) = run_ops enc (apply_op enc c x) xs"

subsection \<open>Predicates on runs of the client\<close>


text \<open>Every promise that a listener or an entry of \<open>_expecting\<close> refers to has been
  created.\<close>

definition ids_allocated :: "'v client \<Rightarrow> bool" where
  "ids_allocated c =
     (list_all (\<lambda>q. q < length (promises c)) (connected_once c) \<and>
      list_all (\<lambda>(n, q). q < length (promises c)) (expecting c))"



subsection \<open>\<open>batchRequest\<close> and \<open>_processBatch\<close>\<close>

text \<open>A request as \<open>batchRequest\<close> receives it: \<open>cmd\<close>, \<open>args\<close> and \<open>evt\<close>.\<close>

record 'v batch_request =
  br_cmd :: string
  br_args :: 'v
  br_evt :: "string option"

text \<open>
  How the promise of one issued \<open>request\<close> ends: fulfilled with a value or rejected
  with an error, in some turn of the event loop, or never settled. These outcomes are
  what the rest of the client and the peer make of the requests; the functions below
  take them as given.
\<close>

datatype 'v outcome = Fulfils nat 'v | Rejects nat error | Never

text \<open>What the promise of a caller is resolved with: one result, or the array of the
  results of \<open>Promise.all\<close>.\<close>

datatype 'v batch_value = One 'v | Many "'v list"

text \<open>
  \<open>Promise.all\<close> of the promises with the given outcomes: rejected with the rejection
  that happens first, fulfilled with all values when every promise is fulfilled, and
  pending otherwise.
\<close>

fun first_rejection :: "'v outcome list \<Rightarrow> (nat \<times> error) option" where
  "first_rejection [] = None"
| "first_rejection (Rejects t e # os) =
     (case first_rejection os of
        None \<Rightarrow> Some (t, e)
      | Some (t', e') \<Rightarrow> if t' < t then Some (t', e') else Some (t, e))"
| "first_rejection (Fulfils t v # os) = first_rejection os"
| "first_rejection (Never # os) = first_rejection os"

fun fulfilled_values :: "'v outcome list \<Rightarrow> 'v list option" where
  "fulfilled_values [] = Some []"
| "fulfilled_values (Fulfils t v # os) = map_option ((#) v) (fulfilled_values os)"
| "fulfilled_values (Rejects t e # os) = None"
| "fulfilled_values (Never # os) = None"

definition Promise_all :: "'v outcome list \<Rightarrow> 'v batch_value promise" where
  "Promise_all os =
     (case first_rejection os of
        Some (t, e) \<Rightarrow> Rejected e
      | None \<Rightarrow> (case fulfilled_values os of Some vs \<Rightarrow> Resolved (Many vs) | None \<Rightarrow> Pending))"

text \<open>
  The fields of the client that the batching uses. \<open>batchQueue\<close> holds the items
  \<open>{...r, resolve}\<close>, the \<open>resolve\<close> being named by the promise of the caller it
  belongs to; \<open>batchTimer\<close> is the time at which the armed timer is due; \<open>callers\<close> are
  the promises that \<open>batchRequest\<close> has returned; \<open>issued\<close> are the requests handed to
  \<open>request\<close>, in order.
\<close>

record 'v batcher =
  enableBatching :: bool
  batchDelay :: int
  batchQueue :: "('v batch_request \<times> nat) list"
  batchTimer :: "int option"
  callers :: "'v batch_value promise list"
  issued :: "'v batch_request list"

text \<open>
  \<open>batchRequest(requests)\<close> at time \<open>now\<close>. Without batching the requests are issued at
  once and the promise returned is that of \<open>Promise.all\<close>, recorded here in the state in
  which it ends for the given outcomes of those requests. With batching the items are
  appended to the queue, each with the \<open>resolve\<close> of the one new promise, and the timer
  is set anew.
\<close>

definition batchRequest ::
  "'v batcher \<Rightarrow> 'v batch_request list \<Rightarrow> 'v outcome list \<Rightarrow> int \<Rightarrow> nat \<times> 'v batcher" where
  "batchRequest b requests outcomes now =
     (let p = length (callers b)
      in if \<not> enableBatching b
         then (p, b\<lparr>callers := callers b @ [Promise_all outcomes],
                     issued := issued b @ requests\<rparr>)
         else (p, b\<lparr>callers := callers b @ [Pending],
                     batchQueue := batchQueue b @ map (\<lambda>r. (r, p)) requests,
                     batchTimer := Some (now + batchDelay b)\<rparr>))"

text \<open>\<open>item.resolve(results[i])\<close> for every item of the batch, in order.\<close>

fun resolve_items ::
  "'v batcher \<Rightarrow> (('v batch_request \<times> nat) \<times> 'v) list \<Rightarrow> 'v batcher" where
  "resolve_items b [] = b"
| "resolve_items b (((r, p), v) # rest) =
     resolve_items
       (if p < length (callers b) \<and> callers b ! p = Pending
        then b\<lparr>callers := (callers b)[p := Resolved (One v)]\<rparr>
        else b) rest"

text \<open>
  \<open>_processBatch\<close>, run by the timer: the queue is emptied, every item is issued, and
  the \<open>then\<close> callback runs if \<open>Promise.all\<close> of the issued requests is fulfilled.
  There is no callback for its rejection. \<open>outcomes\<close> has one outcome for every item.
\<close>

definition processBatch :: "'v batcher \<Rightarrow> 'v outcome list \<Rightarrow> 'v batcher" where
  "processBatch b outcomes =
     (let batch = batchQueue b;
          b1 = b\<lparr>batchQueue := [], issued := issued b @ map fst batch\<rparr>
      in case Promise_all outcomes of
           Resolved (Many results) \<Rightarrow> resolve_items b1 (zip batch results)
         | _ \<Rightarrow> b1)"

section \<open>Properties of the frame codec\<close>

subsection \<open>One packet at a time\<close>

lemma decode_Nil: "decode env throws [] entry = Inr (entry, [])"
  by (simp add: decode.simps socket_read_def)

lemma decode_nonempty:
  "sock \<noteq> [] \<Longrightarrow>
   decode env throws sock entry =
     (case decode_packet env throws sock (case entry of None \<Rightarrow> \<lparr>full = [], op = None\<rparr> | Some s \<Rightarrow> s) of
        Inl e \<Rightarrow> Inl e
      | Inr (state', evs) \<Rightarrow> Inr (Some state', evs))"
  by (subst decode.simps) (simp add: socket_read_def decode_Nil split: sum.splits)

lemma split8: "take_bit 8 (v::32 word) + 256 * drop_bit 8 v = v"
  using bits_ident[of 8 v] by (simp add: push_bit_eq_mult ac_simps)

lemma top8: "take_bit 8 (drop_bit 24 (w::32 word)) = drop_bit 24 w"
  using take_bit_length_eq[of w] by (simp add: take_bit_drop_bit)

lemma le_bytes_sum:
  "(ucast (ucast (w::32 word) :: byte) :: 32 word) +
   256 * (ucast (ucast (drop_bit 8 w) :: byte) +
   256 * (ucast (ucast (drop_bit 16 w) :: byte) +
   256 * ucast (ucast (drop_bit 24 w) :: byte))) = w"
proof -
  have "take_bit 8 (drop_bit 16 w) + 256 * drop_bit 24 w = drop_bit 16 w"
    using split8[of "drop_bit 16 w"] by simp
  moreover have "take_bit 8 (drop_bit 8 w) + 256 * drop_bit 16 w = drop_bit 8 w"
    using split8[of "drop_bit 8 w"] by simp
  ultimately show ?thesis
    using split8[of w] by (simp add: unsigned_ucast_eq top8)
qed

lemma writeInt32LE_length: "writeInt32LE v = Inr b \<Longrightarrow> length b = 4"
  by (auto simp: writeInt32LE_def split: if_splits)

lemma readInt32LE_write:
  assumes "writeInt32LE v = Inr b" and "length pre = off"
  shows "readInt32LE (pre @ b @ rest) off = Inr v"
proof -
  from assms(1) have range: "- (2 ^ 31) \<le> v" "v < 2 ^ 31"
    and b: "b = map (\<lambda>i. ucast (drop_bit (8 * i) (word_of_int v :: 32 word))) [0..<4]"
    by (auto simp: writeInt32LE_def split: if_splits)
  have "horner_sum ucast (256 :: 32 word) (take 4 (drop off (pre @ b @ rest))) = word_of_int v"
    using le_bytes_sum[of "word_of_int v"] assms(2) by (simp add: b upt_rec)
  moreover have "sint (word_of_int v :: 32 word) = v"
    using range by (simp add: signed_of_int signed_take_bit_int_eq_self)
  moreover have "\<not> length (pre @ b @ rest) < off + 4"
    using assms(2) by (simp add: b)
  ultimately show ?thesis
    by (simp add: readInt32LE_def)
qed

lemma buffer_slice_8:
  "buffer_slice b 8 (int n + 8) = take n (drop 8 b)"
proof -
  have a8: "adjustOffset 8 (length b) = min 8 (length b)"
    by (simp add: adjustOffset_def)
  have "int n + 8 = int (n + 8)" by simp
  then have ae: "adjustOffset (int n + 8) (length b) = min (n + 8) (length b)"
    unfolding adjustOffset_def by (simp only: nat_int of_nat_less_iff) simp
  show ?thesis
    unfolding buffer_slice_def Let_def a8 ae
    by (cases "n + 8 \<le> length b") (auto simp: min_def)
qed

lemma buffer_slice_payload:
  "8 \<le> length c \<Longrightarrow> length c \<le> 8 + n \<Longrightarrow> buffer_slice c 8 (int n + 8) = drop 8 c"
  by (simp add: buffer_slice_8)

lemma encode_Inr:
  assumes "encode env opc P = Inr bs"
  obtains jtext b0 b1 where "JSON_stringify env P = Some jtext"
    and "writeInt32LE opc = Inr b0"
    and "writeInt32LE (int (length (utf8_bytes env jtext))) = Inr b1"
    and "bs = b0 @ b1 @ utf8_bytes env jtext"
  using assms by (auto simp: encode_def Let_def split: option.splits sum.splits)

text \<open>The first packet of a frame: the header and the start of the payload.\<close>

lemma decode_packet_first:
  assumes enc: "encode env opc P = Inr (c @ rest)" and len: "8 \<le> length c"
  shows "decode_packet env throws c \<lparr>full = [], op = None\<rparr> =
           (case JSON_parse env (utf8_toString env (drop 8 c)) of
              Some data \<Rightarrow>
                if throws (Some opc, data)
                then Inr (\<lparr>full = utf8_toString env (drop 8 c), op = Some opc\<rparr>, [(Some opc, data)])
                else Inr (\<lparr>full = [], op = None\<rparr>, [(Some opc, data)])
            | None \<Rightarrow> Inr (\<lparr>full = utf8_toString env (drop 8 c), op = Some opc\<rparr>, []))"
proof -
  from enc obtain jtext b0 b1 where w0: "writeInt32LE opc = Inr b0"
    and w1: "writeInt32LE (int (length (utf8_bytes env jtext))) = Inr b1"
    and bs: "c @ rest = b0 @ b1 @ utf8_bytes env jtext"
    by (rule encode_Inr)
  have l0: "length b0 = 4" and l1: "length b1 = 4"
    using w0 w1 by (simp_all add: writeInt32LE_length)
  have "take 8 (c @ rest) = b0 @ b1" using l0 l1 by (simp add: bs)
  then have c: "c = b0 @ b1 @ drop 8 c" using len
    by (metis append.assoc append_take_drop_id take_append diff_is_0_eq' take_0 append_Nil2)
  have r0: "readInt32LE c 0 = Inr opc"
    using readInt32LE_write[OF w0, of "[]" 0 "b1 @ drop 8 c"] c by simp
  have r4: "readInt32LE c 4 = Inr (int (length (utf8_bytes env jtext)))"
    using readInt32LE_write[OF w1, of b0 4 "drop 8 c"] c l0 by simp
  have "length (c @ rest) = 8 + length (utf8_bytes env jtext)"
    using l0 l1 by (simp add: bs)
  then have "length c \<le> 8 + length (utf8_bytes env jtext)" by simp
  then have sl: "buffer_slice c 8 (int (length (utf8_bytes env jtext)) + 8) = drop 8 c"
    using len by (rule buffer_slice_payload[rotated])
  show ?thesis
    by (simp add: decode_packet_def r0 r4 sl split: option.splits)
qed

lemma readable_events_continue:
  assumes "f \<noteq> []" and "cs \<noteq> []" and "\<forall>c' \<in> set cs. c' \<noteq> []"
    and "\<forall>k < length cs. JSON_parse env (f @ concat (map (utf8_toString env) (take k cs))) = None"
    and "JSON_parse env (f @ concat (map (utf8_toString env) cs)) = Some P"
    and "\<not> throws (Some opc, P)"
  shows "readable_events env throws cs (Some \<lparr>full = f, op = Some opc\<rparr>) =
           Inr (Some \<lparr>full = [], op = None\<rparr>, [(Some opc, P)])"
  using assms
proof (induction cs arbitrary: f)
  case Nil
  then show ?case by simp
next
  case (Cons c' cs')
  from Cons.prems have ne: "c' \<noteq> []" by simp
  show ?case
  proof (cases "cs' = []")
    case True
    with Cons.prems have "JSON_parse env (f @ utf8_toString env c') = Some P" by simp
    then show ?thesis using True ne Cons.prems(1) Cons.prems(6)
      by (simp add: decode_nonempty decode_packet_def)
  next
    case False
    from Cons.prems(4) have "JSON_parse env (f @ concat (map (utf8_toString env) (take 1 (c' # cs')))) = None"
      using False by (metis One_nat_def length_Cons less_Suc_eq_0_disj length_greater_0_conv Suc_less_eq)
    then have none: "JSON_parse env (f @ utf8_toString env c') = None" by simp
    have step: "decode env throws c' (Some \<lparr>full = f, op = Some opc\<rparr>) =
                  Inr (Some \<lparr>full = f @ utf8_toString env c', op = Some opc\<rparr>, [])"
      using ne Cons.prems(1) none by (simp add: decode_nonempty decode_packet_def)
    have "\<forall>k < length cs'. JSON_parse env ((f @ utf8_toString env c') @ concat (map (utf8_toString env) (take k cs'))) = None"
    proof (intro allI impI)
      fix k assume "k < length cs'"
      then have "Suc k < length (c' # cs')" by simp
      with Cons.prems(4) have "JSON_parse env (f @ concat (map (utf8_toString env) (take (Suc k) (c' # cs')))) = None"
        by blast
      then show "JSON_parse env ((f @ utf8_toString env c') @ concat (map (utf8_toString env) (take k cs'))) = None"
        by simp
    qed
    moreover have "JSON_parse env ((f @ utf8_toString env c') @ concat (map (utf8_toString env) cs')) = Some P"
      using Cons.prems(5) by simp
    moreover have "f @ utf8_toString env c' \<noteq> []" using Cons.prems(1) by simp
    moreover have "\<forall>c'' \<in> set cs'. c'' \<noteq> []" using Cons.prems(3) by simp
    ultimately have "readable_events env throws cs' (Some \<lparr>full = f @ utf8_toString env c', op = Some opc\<rparr>) =
        Inr (Some \<lparr>full = [], op = None\<rparr>, [(Some opc, P)])"
      using False Cons.prems(6) by (intro Cons.IH)
    then show ?thesis by (simp add: step)
  qed
qed


text \<open>
  Whatever follows the first frame in a packet is cut off by the slice and never looked
  at again: the second read of the recursive call finds nothing buffered.
\<close>

lemma buffer_slice_frame:
  "length hd8 = 8 \<Longrightarrow> buffer_slice (hd8 @ payload @ rest) 8 (int (length payload) + 8) = payload"
  by (simp add: buffer_slice_8)

lemma decode_first_frame_only:
  assumes enc: "encode env opc P = Inr frame"
    and str: "JSON_stringify env P = Some jtext"
    and parse: "JSON_parse env (utf8_toString env (utf8_bytes env jtext)) = Some P"
  shows "decode env throws (frame @ rest) None =
           Inr (Some (if throws (Some opc, P) then \<lparr>full = utf8_toString env (utf8_bytes env jtext), op = Some opc\<rparr>
                      else \<lparr>full = [], op = None\<rparr>),
                [(Some opc, P)])"
proof -
  from enc str obtain b0 b1 where w0: "writeInt32LE opc = Inr b0"
    and w1: "writeInt32LE (int (length (utf8_bytes env jtext))) = Inr b1"
    and fr: "frame = b0 @ b1 @ utf8_bytes env jtext"
    by (auto elim!: encode_Inr)
  have l0: "length b0 = 4" and l1: "length b1 = 4"
    using w0 w1 by (simp_all add: writeInt32LE_length)
  have r0: "readInt32LE (frame @ rest) 0 = Inr opc"
    using readInt32LE_write[OF w0, of "[]" 0 "b1 @ utf8_bytes env jtext @ rest"] by (simp add: fr)
  have r4: "readInt32LE (frame @ rest) 4 = Inr (int (length (utf8_bytes env jtext)))"
    using readInt32LE_write[OF w1, of b0 4 "utf8_bytes env jtext @ rest"] l0 by (simp add: fr)
  have sl: "buffer_slice (frame @ rest) 8 (int (length (utf8_bytes env jtext)) + 8) = utf8_bytes env jtext"
    using buffer_slice_frame[of "b0 @ b1" "utf8_bytes env jtext" rest] l0 l1 by (simp add: fr)
  have ne: "frame @ rest \<noteq> []" using l0 by (auto simp: fr)
  show ?thesis
    using ne by (simp add: decode_nonempty decode_packet_def r0 r4 sl parse)
qed

subsection \<open>Round trip through the reassembly\<close>

text \<open>
  The splits that the reassembly does handle. The frame \<open>encode opc P\<close> is delivered as
  the chunks \<open>c # cs\<close>, one \<open>readable\<close> event each. If the first chunk holds the whole
  8-byte header (and, when more chunks follow, some text of the payload), every later
  chunk is non-empty, the chunks decode one by one to the pieces of the payload text, the
  text accumulated before the last chunk never parses as JSON, and the callback does not
  throw on the message, then exactly one event \<open>(opc, P)\<close> is delivered and the
  reassembly state is reset. The frame delivered whole (\<open>cs = []\<close>) is the special case
  with no further condition than that its text parses back to \<open>P\<close>.
\<close>

lemma decode_chunked_frame:
  assumes enc: "encode env opc P = Inr (c @ concat cs)"
    and hdr: "8 \<le> length c"
    and nonempty: "\<forall>c' \<in> set cs. c' \<noteq> []"
    and first: "cs \<noteq> [] \<longrightarrow> utf8_toString env (drop 8 c) \<noteq> []"
    and partial: "\<forall>k < length cs.
        JSON_parse env (utf8_toString env (drop 8 c) @ concat (map (utf8_toString env) (take k cs))) = None"
    and whole: "JSON_parse env (utf8_toString env (drop 8 c) @ concat (map (utf8_toString env) cs)) = Some P"
    and quiet: "\<not> throws (Some opc, P)"
  shows "readable_events env throws (c # cs) None =
           Inr (Some \<lparr>full = [], op = None\<rparr>, [(Some opc, P)])"
proof -
  have c_ne: "c \<noteq> []" using hdr by auto
  note pk = decode_packet_first[OF enc hdr]
  show ?thesis
  proof (cases "cs = []")
    case True
    with whole have "JSON_parse env (utf8_toString env (drop 8 c)) = Some P" by simp
    then show ?thesis using True c_ne quiet by (simp add: decode_nonempty pk)
  next
    case False
    with partial have "JSON_parse env (utf8_toString env (drop 8 c) @ concat (map (utf8_toString env) (take 0 cs))) = None"
      by (metis length_greater_0_conv)
    then have none: "JSON_parse env (utf8_toString env (drop 8 c)) = None" by simp
    have step: "decode env throws c None =
                  Inr (Some \<lparr>full = utf8_toString env (drop 8 c), op = Some opc\<rparr>, [])"
      using c_ne none by (simp add: decode_nonempty pk)
    have "readable_events env throws cs (Some \<lparr>full = utf8_toString env (drop 8 c), op = Some opc\<rparr>) =
            Inr (Some \<lparr>full = [], op = None\<rparr>, [(Some opc, P)])"
      using first False nonempty partial whole quiet by (intro readable_events_continue) auto
    then show ?thesis by (simp add: step)
  qed
qed

text \<open>An instance: the frame of \<open>(1, true)\<close> split inside its payload.\<close>

lemma decode_chunked_frame_example:
  "encode ascii_env 1 (JBool True) = Inr ([1, 0, 0, 0, 4, 0, 0, 0, 116, 114] @ concat [[117, 101]])
   \<and> readable_events ascii_env (\<lambda>ev. False) [[1, 0, 0, 0, 4, 0, 0, 0, 116, 114], [117, 101]] None =
       Inr (Some \<lparr>full = [], op = None\<rparr>, [(Some 1, JBool True)])"
proof -
  let ?c = "[1, 0, 0, 0, 4, 0, 0, 0, 116, 114] :: buffer"
  let ?cs = "[[117, 101]] :: buffer list"
  have enc: "encode ascii_env 1 (JBool True) = Inr (?c @ concat ?cs)"
    by code_simp
  have hdr: "8 \<le> length ?c" by simp
  have nonempty: "\<forall>c' \<in> set ?cs. c' \<noteq> []" by simp
  have first: "?cs \<noteq> [] \<longrightarrow> utf8_toString ascii_env (drop 8 ?c) \<noteq> []"
    by code_simp
  have p0: "JSON_parse ascii_env (utf8_toString ascii_env (drop 8 ?c)) = None"
    by code_simp
  have partial: "\<forall>k < length ?cs.
      JSON_parse ascii_env
        (utf8_toString ascii_env (drop 8 ?c) @ concat (map (utf8_toString ascii_env) (take k ?cs))) = None"
    using p0 by simp
  have whole: "JSON_parse ascii_env
      (utf8_toString ascii_env (drop 8 ?c) @ concat (map (utf8_toString ascii_env) ?cs)) =
      Some (JBool True)"
    by code_simp
  have quiet: "\<not> (\<lambda>ev. False) (Some (1::int), JBool True)" by simp
  show ?thesis
    using enc decode_chunked_frame[where throws = "\<lambda>ev. False", OF enc hdr nonempty first partial whole quiet]
    by simp
qed

text \<open>
  Claim C1 at concrete inputs: the frame of opcode 1 and payload \<open>12\<close>, the ten bytes
  below, delivered in two chunks to a callback that never throws. The typings document
  \<open>decode\<close> with ``Handles partial messages and stream reassembly automatically'', and
  the reassembly does not put the frame together again at any of these splits:

  \<^item> split after the ninth byte, the first chunk already parses (its text is \<open>1\<close>), so
    the event \<open>(1, 1)\<close> is delivered instead of \<open>(1, 12)\<close> and the state is reset; the
    last byte is then read as a header, which throws \<open>RangeError\<close>;
  \<^item> split inside the header, the first chunk has no length field to read and
    \<open>readInt32LE(4)\<close> throws \<open>RangeError\<close>;
  \<^item> split right after the header, the first chunk leaves no pending text, so the
    payload is read as a header, which throws \<open>RangeError\<close>.

  In no case is the event \<open>(1, 12)\<close> delivered.
\<close>

theorem decode_split_frame_not_reassembled:
  "encode ascii_env 1 (JNum 12) = Inr (concat [[1, 0, 0, 0, 2, 0, 0, 0, 49], [50]])
   \<and> decode ascii_env (\<lambda>ev. False) [1, 0, 0, 0, 2, 0, 0, 0, 49] None =
       Inr (Some \<lparr>full = [], op = None\<rparr>, [(Some 1, JNum 1)])
   \<and> readable_events ascii_env (\<lambda>ev. False) [[1, 0, 0, 0, 2, 0, 0, 0, 49], [50]] None =
       Inl RangeError
   \<and> encode ascii_env 1 (JNum 12) = Inr (concat [[1, 0, 0, 0], [2, 0, 0, 0, 49, 50]])
   \<and> readable_events ascii_env (\<lambda>ev. False) [[1, 0, 0, 0], [2, 0, 0, 0, 49, 50]] None =
       Inl RangeError
   \<and> encode ascii_env 1 (JNum 12) = Inr (concat [[1, 0, 0, 0, 2, 0, 0, 0], [49, 50]])
   \<and> decode ascii_env (\<lambda>ev. False) [1, 0, 0, 0, 2, 0, 0, 0] None =
       Inr (Some \<lparr>full = [], op = Some 1\<rparr>, [])
   \<and> readable_events ascii_env (\<lambda>ev. False) [[1, 0, 0, 0, 2, 0, 0, 0], [49, 50]] None =
       Inl RangeError"
  by code_simp

text \<open>
  A callback that throws on the message: the exception is swallowed by the \<open>catch\<close>, the
  message has been delivered, and its text stays pending with the opcode, so that the
  next packet is taken as a continuation of it.
\<close>

lemma decode_callback_throws:
  "decode ascii_env (\<lambda>ev. True) [1, 0, 0, 0, 2, 0, 0, 0, 49, 50] None =
     Inr (Some \<lparr>full = ''12'', op = Some 1\<rparr>, [(Some 1, JNum 12)])
   \<and> readable_events ascii_env (\<lambda>ev. True)
       [[1, 0, 0, 0, 2, 0, 0, 0, 49, 50], [1, 0, 0, 0, 1, 0, 0, 0, 55]] None =
     Inr (Some \<lparr>full = ''12'' @ map (\<lambda>b. char_of (unat b)) [1, 0, 0, 0, 1, 0, 0, 0, 55 :: byte],
                 op = Some 1\<rparr>,
          [(Some 1, JNum 12)])"
  by code_simp

subsection \<open>Several frames in one read\<close>

text \<open>
  Claim C2 at a concrete input: the frames of \<open>(1, 12)\<close> and \<open>(1, 7)\<close>, nineteen bytes
  in all, arrive in one read. The callback runs once, for the first frame; the second
  frame is dropped, whether the callback returns (first equation) or throws (second).
\<close>

theorem decode_two_frames_one_read:
  "encode ascii_env 1 (JNum 12) = Inr [1, 0, 0, 0, 2, 0, 0, 0, 49, 50]
   \<and> encode ascii_env 1 (JNum 7) = Inr [1, 0, 0, 0, 1, 0, 0, 0, 55]
   \<and> decode ascii_env (\<lambda>ev. False) ([1, 0, 0, 0, 2, 0, 0, 0, 49, 50] @ [1, 0, 0, 0, 1, 0, 0, 0, 55]) None =
       Inr (Some \<lparr>full = [], op = None\<rparr>, [(Some 1, JNum 12)])
   \<and> decode ascii_env (\<lambda>ev. True) ([1, 0, 0, 0, 2, 0, 0, 0, 49, 50] @ [1, 0, 0, 0, 1, 0, 0, 0, 55]) None =
       Inr (Some \<lparr>full = ''12'', op = Some 1\<rparr>, [(Some 1, JNum 12)])"
  by code_simp

section \<open>Properties of the endpoint resolver\<close>

lemma getIPC_listening: "listening n \<Longrightarrow> getIPC listening n = ([n], Inr n)"
  by (simp add: getIPC.simps)

lemma getIPC_next:
  "\<not> listening n \<Longrightarrow> n < 10 \<Longrightarrow>
   getIPC listening n = (n # fst (getIPC listening (n + 1)), snd (getIPC listening (n + 1)))"
  by (subst getIPC.simps) (simp add: case_prod_beta)

lemma getIPC_last: "\<not> listening n \<Longrightarrow> \<not> n < 10 \<Longrightarrow> getIPC listening n = ([n], Inl ConnectionFailed)"
  by (simp add: getIPC.simps)

text \<open>The instances attempted are \<open>n\<close>, \<open>n + 1\<close> and so on up to the first that listens, and
  up to instance 10 when none does.\<close>

lemma getIPC_found:
  "listening k \<Longrightarrow> \<forall>i. n \<le> i \<and> i < k \<longrightarrow> \<not> listening i \<Longrightarrow> n \<le> k \<Longrightarrow> k \<le> 10 \<Longrightarrow>
   getIPC listening n = ([n..<Suc k], Inr k)"
proof (induction "k - n" arbitrary: n)
  case 0
  then have "n = k" by simp
  then show ?case using "0.prems"(1) by (simp add: getIPC_listening)
next
  case (Suc m)
  then have lt: "n < k" by simp
  then have nl: "\<not> listening n" using Suc.prems(2) by simp
  have "getIPC listening (n + 1) = ([n + 1..<Suc k], Inr k)"
    using Suc.hyps(2) Suc.prems lt by (intro Suc.hyps(1)) auto
  then show ?case
    using nl lt Suc.prems(4) by (simp add: getIPC_next upt_conv_Cons)
qed

lemma getIPC_none:
  "\<forall>i. n \<le> i \<and> i \<le> 10 \<longrightarrow> \<not> listening i \<Longrightarrow> n \<le> 10 \<Longrightarrow>
   getIPC listening n = ([n..<11], Inl ConnectionFailed)"
proof (induction "10 - n" arbitrary: n)
  case 0
  then have "n = 10" by simp
  then show ?case using "0.prems"(1) by (simp add: getIPC_last)
next
  case (Suc m)
  then have lt: "n < 10" by simp
  have nl: "\<not> listening n" using Suc.prems by simp
  have "getIPC listening (n + 1) = ([n + 1..<11], Inl ConnectionFailed)"
    using Suc.hyps(2) Suc.prems lt by (intro Suc.hyps(1)) auto
  then show ?case
    using nl lt by (simp add: getIPC_next upt_conv_Cons)
qed

text \<open>
  Claim C8 at a concrete input. With no instance listening, eleven addresses are
  attempted, instance 10 after instances 0 to 9; and with instance 10 alone listening,
  every candidate of the range 0 to 9 fails and the connection is made all the same.
\<close>

theorem getIPC_tries_instance_10:
  "getIPC (\<lambda>i. False) 0 = ([0, 1, 2, 3, 4, 5, 6, 7, 8, 9, 10], Inl ConnectionFailed)
   \<and> getIPC (\<lambda>i. i = 10) 0 = ([0, 1, 2, 3, 4, 5, 6, 7, 8, 9, 10], Inr 10)"
  by code_simp

section \<open>Properties of the response cache\<close>

text \<open>
  Claim C6, as the code has it. A write stores the value with the expiry \<open>now + ttl\<close>.
  A read of that entry at a time \<open>t\<close> up to and including the expiry returns the value
  and leaves the cache as it is; a read at a later time returns a miss and removes the
  entry, and no other.
\<close>

theorem cache_get_after_set:
  "cache (cache_set c K V t0) K = Some \<lparr>item_value = V, expires = t0 + ttl c\<rparr>
   \<and> (t \<le> t0 + ttl c \<longrightarrow>
        cache_get (cache_set c K V t0) K t = (Some V, cache_set c K V t0))
   \<and> (t0 + ttl c < t \<longrightarrow>
        cache_get (cache_set c K V t0) K t =
          (None, (cache_set c K V t0)\<lparr>cache := (cache (cache_set c K V t0))(K := None)\<rparr>))"
  by (simp add: cache_get_def cache_set_def)

theorem cache_get_after_set_witness:
  "cache_get (cache_set \<lparr>cache = Map.empty, ttl = 5000\<rparr> ''K'' (1 :: nat) 0) ''K'' 4999 =
     (Some 1, cache_set \<lparr>cache = Map.empty, ttl = 5000\<rparr> ''K'' 1 0)
   \<and> fst (cache_get (cache_set \<lparr>cache = Map.empty, ttl = 5000\<rparr> ''K'' (1 :: nat) 0) ''K'' 5001) = None
   \<and> cache (snd (cache_get (cache_set \<lparr>cache = Map.empty, ttl = 5000\<rparr> ''K'' (1 :: nat) 0) ''K'' 5001)) ''K'' = None"
  using cache_get_after_set [of "\<lparr>cache = Map.empty, ttl = 5000\<rparr>" "''K''" "1 :: nat" 0 4999]
    cache_get_after_set [of "\<lparr>cache = Map.empty, ttl = 5000\<rparr>" "''K''" "1 :: nat" 0 5001]
  by simp

text \<open>
  Claim C6 as stated fails at the instant of expiry: written at time 0 with a ttl of
  5000, the entry is still returned by a read at time 5000, where \<open>now < expiresAt\<close>
  does not hold.
\<close>

theorem cache_get_at_expiry_counterexample:
  "\<not> ((5000 :: int) < 0 + 5000)
   \<and> fst (cache_get (cache_set \<lparr>cache = Map.empty, ttl = 5000\<rparr> ''K'' (1 :: nat) 0) ''K'' 5000) = Some 1"
  by (simp add: cache_get_def cache_set_def)

section \<open>Properties of the admission queue\<close>

lemma length_remove1_int:
  "x \<in> set xs \<Longrightarrow> int (length (remove1 x xs)) = int (length xs) - 1"
  by (induction xs) auto

lemma rq_step_running:
  assumes "rq_step s e = Some s'" and "running (rq s) = int (length (in_flight s))"
  shows "running (rq s') = int (length (in_flight s'))"
proof (cases e)
  case (Add i)
  with assms show ?thesis
    by (auto simp: add_call_def admit_def split: if_splits)
next
  case (Resume i)
  with assms show ?thesis
    by (auto simp: add_resume_def admit_def split: list.splits if_splits)
next
  case (Settle i ok)
  with assms have "i \<in> set (in_flight s)" and s': "s' = add_finally s i"
    by (auto split: if_splits)
  then have "int (length (remove1 i (in_flight s))) = int (length (in_flight s)) - 1"
    by (simp add: length_remove1_int)
  then show ?thesis
    using assms(2) by (auto simp: s' add_finally_def Let_def split: list.splits)
qed

text \<open>
  The counter is exact on every run: it is the number of calls in flight, so each
  admitted call is counted once when it is admitted and once less when its \<open>fn()\<close>
  settles, fulfilled or rejected.
\<close>

lemma rq_run_running:
  "rq_run s es = Some s' \<Longrightarrow> running (rq s) = int (length (in_flight s)) \<Longrightarrow>
   running (rq s') = int (length (in_flight s'))"
proof (induction es arbitrary: s)
  case Nil
  then show ?case by simp
next
  case (Cons e es)
  then show ?case
    by (auto split: option.splits dest: rq_step_running)
qed

lemma add_finally_fifo:
  "queue (rq s) = w # ws \<Longrightarrow>
   resumable (add_finally s i) = resumable s @ [w] \<and> queue (rq (add_finally s i)) = ws"
  by (simp add: add_finally_def Let_def)

lemma add_finally_running:
  "running (rq (add_finally s i)) = running (rq s) - 1"
  by (simp add: add_finally_def Let_def split: list.splits)

text \<open>
  Claim C4 at a concrete input, with \<open>maxConcurrent = 1\<close>. Call 1 is admitted and call 2
  waits. When call 1 settles, the counter drops to 0 and call 2 is woken, but its
  continuation is only queued. Call 3 arrives before that continuation runs, finds the
  counter below the bound and is admitted; the continuation of call 2 then increments the
  counter without a second look. Two calls are in flight under a bound of one.
\<close>

theorem rq_bound_exceeded:
  "rq_run (rq_init 1) [Add 1, Add 2, Settle 1 True, Add 3, Resume 2] =
     Some \<lparr>rq = \<lparr>queue = [], running = 2, maxConcurrent = 1\<rparr>, resumable = [], in_flight = [3, 2]\<rparr>"
  by code_simp

section \<open>Properties of the client\<close>

subsection \<open>Settling a promise\<close>

lemma settle_fields [simp]:
  "connectPromise (settle c p x) = connectPromise c"
  "expecting (settle c p x) = expecting c"
  "timers (settle c p x) = timers c"
  "reconnectAttempts (settle c p x) = reconnectAttempts c"
  "maxReconnectAttempts (settle c p x) = maxReconnectAttempts c"
  "isReconnecting (settle c p x) = isReconnecting c"
  "autoReconnect (settle c p x) = autoReconnect c"
  "connected_once (settle c p x) = connected_once c"
  "close_once (settle c p x) = close_once c"
  "length (promises (settle c p x)) = length (promises c)"
  by (simp_all add: settle_def)


lemma settle_settled:
  "q < length (promises c) \<Longrightarrow> promises c ! q = Rejected e \<Longrightarrow>
   promises (settle c p x) ! q = Rejected e"
  by (auto simp: settle_def nth_list_update)

lemma run_connected_connectPromise [simp]:
  "connectPromise (run_connected c ps) = connectPromise c"
  by (induction ps arbitrary: c) (simp_all add: clearTimeout_def)

lemma reject_all_fields [simp]:
  "connectPromise (reject_all c es e) = connectPromise c"
  "expecting (reject_all c es e) = expecting c"
  "autoReconnect (reject_all c es e) = autoReconnect c"
  "isReconnecting (reject_all c es e) = isReconnecting c"
  by (induction c es e rule: reject_all.induct) (simp_all add: entry_reject_def clearTimeout_def)

subsection \<open>The close of the transport with requests pending\<close>

text \<open>The close listener rejects through the entries and removes none of them.\<close>

lemma close_listener_expecting:
  "expecting (close_listener c cid p reason) = expecting c"
  by (simp add: close_listener_def Let_def tryReconnect_begin_def)

lemma run_close_expecting:
  "expecting (run_close c ls reason) = expecting c"
  by (induction c ls reason rule: run_close.induct) (simp_all add: close_listener_expecting)

lemma transport_close_expecting:
  "expecting (transport_close c reason) = expecting c"
  by (simp add: transport_close_def run_close_expecting)

text \<open>
  Claim C3 at a concrete input: a client that is connected and ready, with the three
  requests \<open>n1\<close>, \<open>n2\<close>, \<open>n3\<close> pending (promises 1, 2 and 3), whose transport then closes.
  The three promises are rejected with \<open>ConnectionError\<close>, in the order of registration
  and before the promise of \<open>connect\<close>; but the three entries are still in \<open>_expecting\<close>
  afterwards.
\<close>

theorem close_leaves_pending_table:
  "(let c = run_ops (frame_encoder ascii_env JRequest) (new_client 10000 False 3)
       [OpConnect ''app'' 0, OpTransportOpen,
        OpMessage \<lparr>msg_cmd = ''DISPATCH'', msg_evt = Some ''READY'', msg_nonce = None,
                   msg_data = JNull, msg_data_user = None\<rparr>,
        OpRequest ''A'' (JNum 0) None ''n1'' 10, OpRequest ''B'' (JNum 0) None ''n2'' 20,
        OpRequest ''C'' (JNum 0) None ''n3'' 30,
        OpTransportClose ''1006: gone'']
    in expecting c = [(''n1'', 1), (''n2'', 2), (''n3'', 3)]
     \<and> promises c =
         [ResolvedClient, Rejected (ConnectionError ''1006: gone''),
          Rejected (ConnectionError ''1006: gone''), Rejected (ConnectionError ''1006: gone'')]
     \<and> drop 6 (trace c) =
         [Settled 1 (Rejected (ConnectionError ''1006: gone'')),
          Settled 2 (Rejected (ConnectionError ''1006: gone'')),
          Settled 3 (Rejected (ConnectionError ''1006: gone'')),
          Emit ''disconnected''])"
  by code_simp

subsection \<open>The timeout of a request\<close>













text \<open>The promises referred to are allocated in every state the client reaches, so the
  promise of a new request is referred to by nothing else.\<close>

lemma set_update_subset: "set (AList.update k v al) \<subseteq> insert (k, v) (set al)"
  by (induction al) auto

lemma update_memD: "x \<in> set (AList.update k v al) \<Longrightarrow> x = (k, v) \<or> x \<in> set al"
  using set_update_subset[of k v al] by auto

lemma set_delete_subset: "set (AList.delete k al) \<subseteq> set al"
  by (auto simp: AList.delete_eq)

lemma ids_mono:
  "ids_allocated c \<Longrightarrow> length (promises c) \<le> length (promises c') \<Longrightarrow>
   set (connected_once c') \<subseteq> set (connected_once c) \<Longrightarrow>
   set (expecting c') \<subseteq> set (expecting c) \<Longrightarrow> ids_allocated c'"
  unfolding ids_allocated_def list_all_iff by fastforce

lemma run_connected_fields [simp]:
  "expecting (run_connected c ps) = expecting c"
  "connected_once (run_connected c ps) = connected_once c"
  "length (promises (run_connected c ps)) = length (promises c)"
  by (induction ps arbitrary: c) (simp_all add: clearTimeout_def)

lemma reject_all_more_fields [simp]:
  "connected_once (reject_all c es e) = connected_once c"
  "length (promises (reject_all c es e)) = length (promises c)"
  by (induction c es e rule: reject_all.induct) (simp_all add: entry_reject_def clearTimeout_def)

lemma close_listener_fields [simp]:
  "connected_once (close_listener c cid p reason) = connected_once c"
  "length (promises (close_listener c cid p reason)) = length (promises c)"
  by (simp_all add: close_listener_def Let_def tryReconnect_begin_def)

lemma run_close_fields [simp]:
  "connected_once (run_close c ls reason) = connected_once c"
  "length (promises (run_close c ls reason)) = length (promises c)"
  by (induction c ls reason rule: run_close.induct) simp_all

lemma emit_connected_fields [simp]:
  "expecting (emit_connected c) = expecting c"
  "connected_once (emit_connected c) = []"
  "length (promises (emit_connected c)) = length (promises c)"
  by (simp_all add: emit_connected_def)

lemma ids_onRpcMessage: "ids_allocated c \<Longrightarrow> ids_allocated (onRpcMessage c m)"
  by (erule ids_mono)
     (auto simp: onRpcMessage_def client_emit_def entry_reject_def entry_resolve_def
        clearTimeout_def Let_def AList.delete_eq split: option.splits)

lemma ids_timer_fire: "ids_allocated c \<Longrightarrow> ids_allocated (timer_fire c p)"
  by (erule ids_mono)
     (auto simp: timer_fire_def AList.delete_eq split: option.splits timer.splits)

lemma ids_connect: "ids_allocated c \<Longrightarrow> ids_allocated (snd (connect c cid now))"
  by (auto simp: ids_allocated_def list_all_iff connect_def new_promise_def Let_def
      split: option.splits)

lemma ids_request:
  assumes a: "ids_allocated c"
  shows "ids_allocated (snd (request_admitted enc c command args event n now))"
proof -
  let ?q = "length (promises c)"
  let ?c3 = "c\<lparr>promises := promises c @ [Pending],
               timers := AList.update ?q (RequestTimeout n (now + requestTimeout c)) (timers c),
               expecting := AList.update n ?q (expecting c)\<rparr>"
  have c3: "ids_allocated ?c3"
    using a by (fastforce simp: ids_allocated_def list_all_iff dest: update_memD)
  have "\<And>e. ids_allocated (settle ?c3 ?q (Rejected e))"
    using c3 by (rule ids_mono) simp_all
  moreover have "ids_allocated (?c3\<lparr>trace := trace ?c3 @ [TransportSend command args event n]\<rparr>)"
    using c3 by (rule ids_mono) simp_all
  ultimately show ?thesis
    by (simp add: request_admitted_def new_promise_def Let_def split: sum.splits)
qed

lemma ids_apply_op: "ids_allocated c \<Longrightarrow> ids_allocated (apply_op enc c x)"
proof (cases x)
  case (OpReconnectConnect cid now)
  assume "ids_allocated c"
  then have "ids_allocated (c\<lparr>connectPromise := None\<rparr>)"
    by (rule ids_mono) simp_all
  then show ?thesis
    using OpReconnectConnect by (simp add: tryReconnect_connect_def ids_connect)
qed (auto simp: ids_connect ids_request ids_timer_fire ids_onRpcMessage transport_open_def
       transport_connect_failed_def transport_close_def tryReconnect_connected_def
       tryReconnect_begin_def destroy_def Let_def run_close_expecting elim: ids_mono)

lemma ids_run_ops: "ids_allocated c \<Longrightarrow> ids_allocated (run_ops enc c ops)"
  by (induction ops arbitrary: c) (simp_all add: ids_apply_op)

lemma ids_new_client: "ids_allocated (new_client timeout reconnect attempts)"
  by (simp add: ids_allocated_def new_client_def)



text \<open>A request that cannot be sent is rejected at once, and its timer changes nothing
  of that when it fires.\<close>

lemma request_admitted_unsent:
  assumes "\<not> transport_socket c \<or> enc command args event nonce = Inl e"
  shows "\<exists>e'. promises (snd (request_admitted enc c command args event nonce now))
                 ! fst (request_admitted enc c command args event nonce now) = Rejected e' \<and>
               (transport_socket c \<longrightarrow> e' = e) \<and> (\<not> transport_socket c \<longrightarrow> e' = TypeError)"
  using assms
  by (auto simp: request_admitted_def new_promise_def Let_def settle_def nth_append
      split: sum.splits)




subsection \<open>Reconnection with backoff\<close>

lemma failed_attempt:
  fixes c :: "'v client" and cid :: string and t :: int
  assumes lt: "int (reconnectAttempts c) < maxReconnectAttempts c"
  defines "r \<equiv> tryReconnect_connect (tryReconnect_begin c cid) cid t"
  defines "c' \<equiv> transport_connect_failed (snd r) (fst r) ConnectionFailed"
  shows "trace c' = trace c @
           [EmitReconnecting (reconnectAttempts c + 1),
            Sleep (min (1000 * 2 ^ (reconnectAttempts c + 1)) 30000),
            TransportConnect,
            Settled (length (promises c)) (Rejected ConnectionFailed)]"
    and "reconnectAttempts c' = reconnectAttempts c + 1"
    and "maxReconnectAttempts c' = maxReconnectAttempts c"
    and "length (promises c') = length (promises c) + 1"
    and "isReconnecting c'"
  using lt unfolding c'_def r_def
  by (simp_all add: tryReconnect_begin_def tryReconnect_connect_def connect_def new_promise_def
        transport_connect_failed_def settle_def Let_def nth_append)


lemma reconnect_loop_failed:
  "int (reconnectAttempts c) < maxReconnectAttempts c \<Longrightarrow> \<not> succeeds (reconnectAttempts c + 1) \<Longrightarrow>
   reconnect_loop succeeds clock c cid =
     reconnect_loop succeeds clock
       (transport_connect_failed
          (snd (tryReconnect_connect (tryReconnect_begin c cid) cid (clock (reconnectAttempts c + 1))))
          (fst (tryReconnect_connect (tryReconnect_begin c cid) cid (clock (reconnectAttempts c + 1))))
          ConnectionFailed) cid"
  by (subst reconnect_loop.simps) (simp add: Let_def tryReconnect_begin_def)


lemma run_connected_attempts:
  "ps \<noteq> [] \<Longrightarrow> reconnectAttempts (run_connected c ps) = 0"
proof (induction ps arbitrary: c)
  case Nil
  then show ?case by simp
next
  case (Cons p ps)
  show ?case
  proof (cases "ps = []")
    case True
    then show ?thesis by (simp add: clearTimeout_def)
  next
    case False
    then show ?thesis using Cons.IH by simp
  qed
qed

lemma emit_connected_attempts:
  "connected_once c \<noteq> [] \<Longrightarrow> reconnectAttempts (emit_connected c) = 0"
  by (simp add: emit_connected_def run_connected_attempts)

text \<open>A reconnection whose attempt \<open>k + 1\<close> is the first to succeed ends with the
  counter at zero and the client no longer reconnecting.\<close>

lemma connect_registers_connected:
  "connectPromise c = None \<Longrightarrow> connected_once (snd (connect c cid now)) \<noteq> []"
  by (simp add: connect_def new_promise_def Let_def)

lemma reconnect_loop_succeeds:
  "succeeds (reconnectAttempts c + k + 1) \<Longrightarrow>
   \<forall>n. n \<le> reconnectAttempts c + k \<longrightarrow> \<not> succeeds n \<Longrightarrow>
   int (reconnectAttempts c + k) < maxReconnectAttempts c \<Longrightarrow>
   reconnectAttempts (reconnect_loop succeeds clock c cid) = 0 \<and>
   \<not> isReconnecting (reconnect_loop succeeds clock c cid)"
proof (induction k arbitrary: c)
  case 0
  let ?c1 = "tryReconnect_begin c cid"
  let ?r = "tryReconnect_connect ?c1 cid (clock (reconnectAttempts c + 1))"
  have lt: "int (reconnectAttempts c) < maxReconnectAttempts c" using "0.prems" by simp
  then have n: "reconnectAttempts ?c1 = reconnectAttempts c + 1"
    by (simp add: tryReconnect_begin_def Let_def)
  have "connected_once (snd ?r) \<noteq> []"
    unfolding tryReconnect_connect_def by (rule connect_registers_connected) simp
  then have "connected_once (transport_open (snd ?r)) \<noteq> []"
    by (simp add: transport_open_def)
  then have z: "reconnectAttempts (emit_connected (transport_open (snd ?r))) = 0"
    by (rule emit_connected_attempts)
  have "reconnect_loop succeeds clock c cid =
          tryReconnect_connected (emit_connected (transport_open (snd ?r)))"
    using lt "0.prems"(1) n by (subst reconnect_loop.simps) (simp add: Let_def)
  then show ?case using z by (simp add: tryReconnect_connected_def)
next
  case (Suc k)
  let ?r = "tryReconnect_connect (tryReconnect_begin c cid) cid (clock (reconnectAttempts c + 1))"
  let ?c' = "transport_connect_failed (snd ?r) (fst ?r) ConnectionFailed"
  have lt: "int (reconnectAttempts c) < maxReconnectAttempts c" using Suc.prems by simp
  note fa = failed_attempt[OF lt, of cid "clock (reconnectAttempts c + 1)"]
  have nf: "\<not> succeeds (reconnectAttempts c + 1)" using Suc.prems(2) by simp
  have step: "reconnect_loop succeeds clock c cid = reconnect_loop succeeds clock ?c' cid"
    using lt nf by (simp add: reconnect_loop_failed)
  have "reconnectAttempts (reconnect_loop succeeds clock ?c' cid) = 0 \<and>
        \<not> isReconnecting (reconnect_loop succeeds clock ?c' cid)"
    using Suc.prems fa(2,3) by (intro Suc.IH) simp_all
  then show ?case by (simp add: step)
qed



subsection \<open>The memoized promise of \<open>connect\<close>\<close>

lemma close_listener_connectPromise [simp]:
  "connectPromise (close_listener c cid p reason) = connectPromise c"
  by (simp add: close_listener_def Let_def tryReconnect_begin_def)

lemma run_close_connectPromise [simp]:
  "connectPromise (run_close c ls reason) = connectPromise c"
  by (induction c ls reason rule: run_close.induct) simp_all

lemma emit_connected_connectPromise [simp]:
  "connectPromise (emit_connected c) = connectPromise c"
  by (simp add: emit_connected_def)

lemma onRpcMessage_connectPromise [simp]:
  "connectPromise (onRpcMessage c m) = connectPromise c"
  by (simp add: onRpcMessage_def client_emit_def entry_reject_def entry_resolve_def
      clearTimeout_def Let_def split: option.splits)

lemma timer_fire_connectPromise [simp]:
  "connectPromise (timer_fire c p) = connectPromise c"
  by (simp add: timer_fire_def split: option.splits timer.splits)

lemma connect_memo: "connectPromise c = Some p \<Longrightarrow> connect c cid now = (p, c)"
  by (simp add: connect_def)

lemma apply_op_connectPromise:
  assumes "connectPromise c = Some p" and "\<forall>cid t. x \<noteq> OpReconnectConnect cid t"
  shows "connectPromise (apply_op enc c x) = Some p"
  using assms
  by (cases x)
     (simp_all add: connect_memo request_admitted_def new_promise_def Let_def transport_open_def
        transport_connect_failed_def transport_close_def tryReconnect_connected_def
        tryReconnect_begin_def destroy_def split: sum.splits)

lemma run_ops_connectPromise:
  "connectPromise c = Some p \<Longrightarrow> \<forall>x \<in> set ops. \<forall>cid t. x \<noteq> OpReconnectConnect cid t \<Longrightarrow>
   connectPromise (run_ops enc c ops) = Some p"
  by (induction ops arbitrary: c) (simp_all add: apply_op_connectPromise)

text \<open>A settled promise stays as it is, whatever happens to the client.\<close>

lemma run_connected_settled:
  "q < length (promises c) \<Longrightarrow> promises c ! q = Rejected e \<Longrightarrow>
   q < length (promises (run_connected c ps)) \<and> promises (run_connected c ps) ! q = Rejected e"
proof (induction ps arbitrary: c)
  case Nil
  then show ?case by simp
next
  case (Cons p ps)
  let ?c = "settle ((clearTimeout c p)\<lparr>reconnectAttempts := 0\<rparr>) p ResolvedClient"
  have "q < length (promises ?c) \<and> promises ?c ! q = Rejected e"
    using Cons.prems by (simp add: settle_settled clearTimeout_def)
  then show ?case using Cons.IH[of ?c] by simp
qed

lemma entry_reject_settled:
  "q < length (promises c) \<Longrightarrow> promises c ! q = Rejected e \<Longrightarrow>
   q < length (promises (entry_reject c p x)) \<and> promises (entry_reject c p x) ! q = Rejected e"
  by (simp add: entry_reject_def settle_settled clearTimeout_def)

lemma entry_resolve_settled:
  "q < length (promises c) \<Longrightarrow> promises c ! q = Rejected e \<Longrightarrow>
   q < length (promises (entry_resolve c p v)) \<and> promises (entry_resolve c p v) ! q = Rejected e"
  by (simp add: entry_resolve_def settle_settled clearTimeout_def)

lemma reject_all_settled:
  "q < length (promises c) \<Longrightarrow> promises c ! q = Rejected e \<Longrightarrow>
   q < length (promises (reject_all c es x)) \<and> promises (reject_all c es x) ! q = Rejected e"
proof (induction c es x rule: reject_all.induct)
  case (1 c e)
  then show ?case by simp
next
  case (2 c n p entries x)
  then show ?case using entry_reject_settled[of q c e p x] by simp
qed

lemma close_listener_settled:
  assumes "q < length (promises c)" and "promises c ! q = Rejected e"
  shows "q < length (promises (close_listener c cid p reason)) \<and>
         promises (close_listener c cid p reason) ! q = Rejected e"
proof -
  let ?c1 = "reject_all c (expecting c) (ConnectionError reason)"
  have 1: "q < length (promises ?c1) \<and> promises ?c1 ! q = Rejected e"
    using assms by (rule reject_all_settled)
  then show ?thesis
    by (simp add: close_listener_def Let_def tryReconnect_begin_def settle_settled)
qed

lemma run_close_settled:
  "q < length (promises c) \<Longrightarrow> promises c ! q = Rejected e \<Longrightarrow>
   q < length (promises (run_close c ls reason)) \<and> promises (run_close c ls reason) ! q = Rejected e"
proof (induction c ls reason rule: run_close.induct)
  case (1 c reason)
  then show ?case by simp
next
  case (2 c cid p ls reason)
  then show ?case using close_listener_settled[of q c e cid p reason] by simp
qed

lemma emit_connected_settled:
  "q < length (promises c) \<Longrightarrow> promises c ! q = Rejected e \<Longrightarrow>
   q < length (promises (emit_connected c)) \<and> promises (emit_connected c) ! q = Rejected e"
  unfolding emit_connected_def by (rule run_connected_settled) simp_all

lemma onRpcMessage_settled:
  assumes "q < length (promises c)" and "promises c ! q = Rejected e"
  shows "q < length (promises (onRpcMessage c m)) \<and> promises (onRpcMessage c m) ! q = Rejected e"
proof -
  have u: "\<And>u. q < length (promises (emit_connected (c\<lparr>user := u\<rparr>))) \<and>
             promises (emit_connected (c\<lparr>user := u\<rparr>)) ! q = Rejected e"
    using assms by (intro emit_connected_settled) simp_all
  show ?thesis
    using assms u emit_connected_settled[of q c e]
      entry_reject_settled[of q c e _ MessageError] entry_resolve_settled[of q c e _ "msg_data m"]
    by (simp add: onRpcMessage_def client_emit_def Let_def split: option.splits)
qed

lemma timer_fire_settled:
  "q < length (promises c) \<Longrightarrow> promises c ! q = Rejected e \<Longrightarrow>
   q < length (promises (timer_fire c p)) \<and> promises (timer_fire c p) ! q = Rejected e"
  by (simp add: timer_fire_def settle_settled split: option.splits timer.splits)

lemma connect_settled:
  "q < length (promises c) \<Longrightarrow> promises c ! q = Rejected e \<Longrightarrow>
   q < length (promises (snd (connect c cid now))) \<and> promises (snd (connect c cid now)) ! q = Rejected e"
  by (simp add: connect_def new_promise_def Let_def nth_append split: option.splits)

lemma request_admitted_settled:
  "q < length (promises c) \<Longrightarrow> promises c ! q = Rejected e \<Longrightarrow>
   q < length (promises (snd (request_admitted enc c command args event nonce now))) \<and>
   promises (snd (request_admitted enc c command args event nonce now)) ! q = Rejected e"
  by (simp add: request_admitted_def new_promise_def Let_def nth_append settle_settled
      split: sum.splits)

lemma apply_op_settled:
  assumes "q < length (promises c)" and "promises c ! q = Rejected e"
  shows "q < length (promises (apply_op enc c x)) \<and> promises (apply_op enc c x) ! q = Rejected e"
proof (cases x)
  case (OpTransportClose reason)
  then show ?thesis
    using assms run_close_settled[of q "c\<lparr>close_once := []\<rparr>" e "close_once c" reason]
    by (simp add: transport_close_def)
next
  case (OpReconnectConnect cid now)
  then show ?thesis
    using assms connect_settled[of q "c\<lparr>connectPromise := None\<rparr>" e cid now]
    by (simp add: tryReconnect_connect_def)
qed (use assms in \<open>simp_all add: connect_settled request_admitted_settled timer_fire_settled
       onRpcMessage_settled transport_open_def transport_connect_failed_def settle_settled
       tryReconnect_connected_def tryReconnect_begin_def destroy_def\<close>)

lemma run_ops_settled:
  "q < length (promises c) \<Longrightarrow> promises c ! q = Rejected e \<Longrightarrow>
   q < length (promises (run_ops enc c ops)) \<and> promises (run_ops enc c ops) ! q = Rejected e"
proof (induction ops arbitrary: c)
  case Nil
  then show ?case by simp
next
  case (Cons x xs)
  then show ?case using apply_op_settled[of q c e enc x] by simp
qed


text \<open>
  Claim C10. Let \<open>c\<close> be the client after any call of \<open>connect\<close>, with \<open>p\<close> the promise
  that call returned. After any jobs of the event loop among which no \<open>_tryReconnect\<close>
  reaches its call of \<open>connect\<close>, a further \<open>connect\<close>, with any client id and at any
  time, returns \<open>p\<close> again and changes nothing: in particular it calls
  \<open>transport.connect()\<close> no more. If \<open>p\<close> has been rejected it is still the rejected
  promise that is returned. The piece of \<open>_tryReconnect\<close> that was left out does replace
  the promise by a new one.
\<close>

theorem connect_memoized:
  assumes first: "connect c0 cid0 t0 = (p, c)"
    and ops: "\<forall>x \<in> set ops. \<forall>cid t. x \<noteq> OpReconnectConnect cid t"
  shows "connect (run_ops enc c ops) cid now = (p, run_ops enc c ops)
     \<and> (p < length (promises c) \<and> promises c ! p = Rejected e \<longrightarrow>
          promises (run_ops enc c ops) ! p = Rejected e)
     \<and> (p < length (promises c) \<longrightarrow> fst (tryReconnect_connect c cid now) \<noteq> p)"
proof -
  have "connectPromise c = Some p"
    using first by (auto simp: connect_def new_promise_def Let_def split: option.splits)
  then have "connectPromise (run_ops enc c ops) = Some p"
    using ops by (rule run_ops_connectPromise)
  then have "connect (run_ops enc c ops) cid now = (p, run_ops enc c ops)"
    by (rule connect_memo)
  moreover have "p < length (promises c) \<and> promises c ! p = Rejected e \<longrightarrow>
      promises (run_ops enc c ops) ! p = Rejected e"
    using run_ops_settled[of p c e enc ops] by simp
  moreover have "p < length (promises c) \<longrightarrow> fst (tryReconnect_connect c cid now) \<noteq> p"
    by (simp add: tryReconnect_connect_def connect_def new_promise_def Let_def)
  ultimately show ?thesis by simp
qed

theorem connect_memoized_witness:
  "(let enc = frame_encoder ascii_env JRequest;
        s = run_ops enc (new_client 10000 False 3)
              [OpConnect ''app'' 0, OpTransportConnectFailed 0 ConnectionFailed];
        ops = [OpConnect ''other'' 20, OpTimer 0, OpTransportClose ''1006: gone'', OpDestroy]
    in connect s ''app'' 10 = (0, s)
     \<and> connect (run_ops enc s ops) ''app'' 30 = (0, run_ops enc s ops)
     \<and> promises (run_ops enc s ops) ! 0 = Rejected ConnectionFailed
     \<and> fst (tryReconnect_connect s ''app'' 30) \<noteq> 0)"
proof -
  let ?enc = "frame_encoder ascii_env JRequest"
  let ?s = "run_ops ?enc (new_client 10000 False 3)
              [OpConnect ''app'' 0, OpTransportConnectFailed 0 ConnectionFailed]"
  let ?ops = "[OpConnect ''other'' 20, OpTimer 0, OpTransportClose ''1006: gone'', OpDestroy]
                :: json client_op list"
  have first: "connect ?s ''app'' 10 = (0, ?s)"
    by code_simp
  have ops: "\<forall>x \<in> set ?ops. \<forall>cid t. x \<noteq> OpReconnectConnect cid t"
    by simp
  have rej: "0 < length (promises ?s) \<and> promises ?s ! 0 = Rejected ConnectionFailed"
    by code_simp
  from rej connect_memoized[OF first ops,
      where enc = ?enc and cid = "''app''" and now = 30 and e = ConnectionFailed]
  have "connect (run_ops ?enc ?s ?ops) ''app'' 30 = (0, run_ops ?enc ?s ?ops)
     \<and> promises (run_ops ?enc ?s ?ops) ! 0 = Rejected ConnectionFailed
     \<and> fst (tryReconnect_connect ?s ''app'' 30) \<noteq> 0"
    by blast
  with first show ?thesis
    unfolding Let_def by blast
qed

section \<open>Properties of the batch aggregator\<close>

lemma batchRequest_disabled:
  "\<not> enableBatching b \<Longrightarrow>
   batchRequest b requests outcomes now =
     (length (callers b),
      b\<lparr>callers := callers b @ [Promise_all outcomes], issued := issued b @ requests\<rparr>)"
  by (simp add: batchRequest_def Let_def)

lemma batchRequest_enabled_timer:
  "enableBatching b \<Longrightarrow>
   batchTimer (snd (batchRequest b requests outcomes now)) = Some (now + batchDelay b) \<and>
   issued (snd (batchRequest b requests outcomes now)) = issued b"
  by (simp add: batchRequest_def Let_def)

text \<open>When a request of the flushed batch is rejected, the flush settles no caller.\<close>

lemma processBatch_rejected:
  "first_rejection outcomes = Some te \<Longrightarrow>
   callers (processBatch b outcomes) = callers b \<and> batchQueue (processBatch b outcomes) = []"
  by (cases te) (simp add: processBatch_def Promise_all_def Let_def)

text \<open>A flush of one item whose request is fulfilled resolves the caller of that item
  with the result.\<close>

lemma processBatch_single:
  "batchQueue b = [(r, p)] \<Longrightarrow> p < length (callers b) \<Longrightarrow> callers b ! p = Pending \<Longrightarrow>
   callers (processBatch b [Fulfils t v]) = (callers b)[p := Resolved (One v)]"
  by (simp add: processBatch_def Promise_all_def Let_def)

text \<open>
  Claim C9 at concrete inputs, with batching enabled and a delay of 10. Two callers
  hand in one request each, at times 0 and 5: the timer is due at 15 and the flush
  issues both requests. The first request is fulfilled with 11 and the second is
  rejected: neither caller is ever settled, where without batching the second caller is
  rejected and the first fulfilled. And a caller that hands in two requests, fulfilled
  with 11 and 22, is resolved with 11 alone, where without batching it gets both
  results.
\<close>

theorem batch_callers_not_settled:
  "(let b0 = \<lparr>enableBatching = True, batchDelay = 10, batchQueue = [], batchTimer = None,
              callers = [], issued = []\<rparr> :: nat batcher;
        off = b0\<lparr>enableBatching := False\<rparr>;
        rA = \<lparr>br_cmd = ''GET_GUILDS'', br_args = 0, br_evt = None\<rparr>;
        rB = \<lparr>br_cmd = ''GET_CHANNELS'', br_args = 0, br_evt = None\<rparr>;
        b2 = snd (batchRequest (snd (batchRequest b0 [rA] [] 0)) [rB] [] 5);
        b3 = processBatch b2 [Fulfils 1 11, Rejects 2 RpcTimeout];
        b4 = processBatch (snd (batchRequest b0 [rA, rB] [] 0)) [Fulfils 1 11, Fulfils 2 22]
    in batchTimer b2 = Some 15
     \<and> issued b3 = [rA, rB]
     \<and> callers b3 = [Pending, Pending]
     \<and> callers (snd (batchRequest off [rA] [Fulfils 1 11] 0)) = [Resolved (Many [11])]
     \<and> callers (snd (batchRequest off [rB] [Rejects 2 RpcTimeout] 5)) = [Rejected RpcTimeout]
     \<and> callers b4 = [Resolved (One 11)]
     \<and> callers (snd (batchRequest off [rA, rB] [Fulfils 1 11, Fulfils 2 22] 0)) =
         [Resolved (Many [11, 22])])"
  by code_simp

end
